theory Spec2Isabelle
  imports Main "HOL-Library.Multiset"
begin

section \<open>Run-time values\<close>

text \<open>
  The records read from the remote store, the value held by \<^verbatim>\<open>useState<User | null>\<close> and
  the result of \<^verbatim>\<open>JSON.parse\<close> are all typed \<^verbatim>\<open>any\<close> (or cast without a check) in the
  source, so the model works on run-time values.  Numbers are restricted to integers; an
  object is the list of its own properties in enumeration order.
\<close>

datatype jsval =
    Undefined
  | Null
  | Bool bool
  | Num int
  | Str string
  | Arr "jsval list"
  | Obj "(string \<times> jsval) list"

text \<open>
  What the code can raise: a TypeError (a property read on \<^verbatim>\<open>null\<close> or
  \<^verbatim>\<open>undefined\<close>, a call of something that is not a function), the SyntaxError of
  \<^verbatim>\<open>JSON.parse\<close>, the rejection of a \<^verbatim>\<open>dbGet\<close> promise, and the error of a
  \<^verbatim>\<open>localStorage.setItem\<close> that cannot store.
\<close>

datatype js_error = TypeError | SyntaxError | DataAccessFault | QuotaExceededError

fun truthy :: "jsval \<Rightarrow> bool" where
  "truthy Undefined = False"
| "truthy Null = False"
| "truthy (Bool b) = b"
| "truthy (Num n) = (n \<noteq> 0)"
| "truthy (Str s) = (s \<noteq> [])"
| "truthy (Arr vs) = True"
| "truthy (Obj ps) = True"

fun nullish :: "jsval \<Rightarrow> bool" where
  "nullish Undefined = True"
| "nullish Null = True"
| "nullish v = False"

subsection \<open>Decimal numerals\<close>

fun digit_char :: "nat \<Rightarrow> char" where
  "digit_char n = char_of (48 + n)"

fun string_of_nat :: "nat \<Rightarrow> string" where
  "string_of_nat n =
     (if n < 10 then [digit_char n] else string_of_nat (n div 10) @ [digit_char (n mod 10)])"

declare string_of_nat.simps [simp del]

definition string_of_int :: "int \<Rightarrow> string" where
  "string_of_int i = (if i < 0 then CHR ''-'' # string_of_nat (nat (- i)) else string_of_nat (nat i))"

subsection \<open>Properties, spread and \<^verbatim>\<open>Object.entries\<close>\<close>

fun indexed :: "nat \<Rightarrow> 'a list \<Rightarrow> (string \<times> 'a) list" where
  "indexed i [] = []"
| "indexed i (x # xs) = (string_of_nat i, x) # indexed (Suc i) xs"

text \<open>
  The own enumerable properties of a value: those of an object, the indexed elements of an
  array, the indexed characters of a string; a number, a boolean, \<^verbatim>\<open>null\<close> and
  \<^verbatim>\<open>undefined\<close> have none.
\<close>

fun own_props :: "jsval \<Rightarrow> (string \<times> jsval) list" where
  "own_props (Obj ps) = ps"
| "own_props (Arr vs) = indexed 0 vs"
| "own_props (Str s) = indexed 0 (map (\<lambda>c. Str [c]) s)"
| "own_props v = []"

text \<open>
  \<^verbatim>\<open>v.k\<close> on a value that is neither \<^verbatim>\<open>null\<close> nor \<^verbatim>\<open>undefined\<close>, for the data
  property names the program reads (\<^verbatim>\<open>username\<close>, \<^verbatim>\<open>password\<close>, \<^verbatim>\<open>id\<close>,
  \<^verbatim>\<open>name\<close>, \<^verbatim>\<open>classId\<close>, \<^verbatim>\<open>className\<close>, \<^verbatim>\<open>passwordChanged\<close>,
  \<^verbatim>\<open>assignedClassIds\<close>, \<^verbatim>\<open>createdAt\<close>): none of them names an inherited member, so
  the read finds an own property or yields \<^verbatim>\<open>undefined\<close>.
\<close>

definition get_prop :: "jsval \<Rightarrow> string \<Rightarrow> jsval" where
  "get_prop v k = (case map_of (own_props v) k of Some x \<Rightarrow> x | None \<Rightarrow> Undefined)"

text \<open>\<^verbatim>\<open>v.k\<close> where \<^verbatim>\<open>v\<close> may be \<^verbatim>\<open>null\<close> or \<^verbatim>\<open>undefined\<close>: a TypeError then.\<close>

definition read_prop :: "jsval \<Rightarrow> string \<Rightarrow> js_error + jsval" where
  "read_prop v k = (if nullish v then Inl TypeError else Inr (get_prop v k))"

text \<open>Defining a property on an object: an existing key keeps its place, a new one is appended.\<close>

fun obj_set :: "string \<Rightarrow> jsval \<Rightarrow> (string \<times> jsval) list \<Rightarrow> (string \<times> jsval) list" where
  "obj_set k v [] = [(k, v)]"
| "obj_set k v ((k', v') # ps) = (if k = k' then (k, v) # ps else (k', v') # obj_set k v ps)"

text \<open>\<^verbatim>\<open>{ <ps>, ...v }\<close>: the own properties of \<^verbatim>\<open>v\<close> are copied over \<^verbatim>\<open>ps\<close> in order.\<close>

definition spread_into :: "(string \<times> jsval) list \<Rightarrow> jsval \<Rightarrow> (string \<times> jsval) list" where
  "spread_into ps v = fold (\<lambda>(k, x). obj_set k x) (own_props v) ps"

definition Object_entries :: "jsval \<Rightarrow> js_error + (string \<times> jsval) list" where
  "Object_entries v = (if nullish v then Inl TypeError else Inr (own_props v))"

subsection \<open>\<^verbatim>\<open>includes\<close>, \<^verbatim>\<open>filter\<close> and \<^verbatim>\<open>sort\<close>\<close>

fun join_comma :: "string list \<Rightarrow> string" where
  "join_comma [] = []"
| "join_comma [s] = s"
| "join_comma (s # t # ss) = s @ '','' @ join_comma (t # ss)"

fun to_string :: "jsval \<Rightarrow> string" where
  "to_string Undefined = ''undefined''"
| "to_string Null = ''null''"
| "to_string (Bool b) = (if b then ''true'' else ''false'')"
| "to_string (Num n) = string_of_int n"
| "to_string (Str s) = s"
| "to_string (Arr vs) = join_comma (map (\<lambda>v. if nullish v then [] else to_string v) vs)"
| "to_string (Obj ps) = ''[object Object]''"

fun starts_with :: "string \<Rightarrow> string \<Rightarrow> bool" where
  "starts_with [] s = True"
| "starts_with (c # cs) [] = False"
| "starts_with (c # cs) (d # ds) = (c = d \<and> starts_with cs ds)"

fun is_substring :: "string \<Rightarrow> string \<Rightarrow> bool" where
  "is_substring p [] = (p = [])"
| "is_substring p (c # cs) = (starts_with p (c # cs) \<or> is_substring p cs)"

text \<open>
  SameValueZero between an element of the session's array and a value of a snapshot: two
  primitives are compared by value; an object or array is never the same reference as a
  value that came from elsewhere.
\<close>

fun same_value_zero :: "jsval \<Rightarrow> jsval \<Rightarrow> bool" where
  "same_value_zero (Arr vs) y = False"
| "same_value_zero (Obj ps) y = False"
| "same_value_zero x y = (x = y)"

text \<open>
  \<^verbatim>\<open>r.includes(x)\<close>: \<^verbatim>\<open>Array.prototype.includes\<close> on an array,
  \<^verbatim>\<open>String.prototype.includes\<close> on a string; any other receiver has no such method and
  the call raises a TypeError.
\<close>

fun includes_js :: "jsval \<Rightarrow> jsval \<Rightarrow> js_error + jsval" where
  "includes_js (Arr vs) x = Inr (Bool (list_ex (\<lambda>v. same_value_zero v x) vs))"
| "includes_js (Str s) x = Inr (Bool (is_substring (to_string x) s))"
| "includes_js r x = Inl TypeError"

text \<open>\<^verbatim>\<open>Array.prototype.filter\<close> with a callback that may raise.\<close>

fun filter_js :: "('a \<Rightarrow> js_error + jsval) \<Rightarrow> 'a list \<Rightarrow> js_error + 'a list" where
  "filter_js p [] = Inr []"
| "filter_js p (x # xs) =
     (case p x of
        Inl e \<Rightarrow> Inl e
      | Inr b \<Rightarrow>
          (case filter_js p xs of
             Inl e \<Rightarrow> Inl e
           | Inr ys \<Rightarrow> Inr (if truthy b then x # ys else ys)))"

text \<open>
  \<^verbatim>\<open>Array.prototype.sort\<close> with a comparator, as a stable insertion sort: an element
  moves behind those it compares greater than (\<^verbatim>\<open>cmp(x, y) > 0\<close>); a comparator result
  of NaN (\<open>None\<close>) counts as \<open>0\<close>.  The language fixes the result of \<^verbatim>\<open>sort\<close>
  (sorted and stable) when the comparator is consistent; for an inconsistent one the order
  is left to the engine and this function gives one possible outcome.
\<close>

fun comes_after :: "int option \<Rightarrow> bool" where
  "comes_after None = False"
| "comes_after (Some d) = (d > 0)"

fun insert_sorted :: "('a \<Rightarrow> 'a \<Rightarrow> int option) \<Rightarrow> 'a \<Rightarrow> 'a list \<Rightarrow> 'a list" where
  "insert_sorted cmp x [] = [x]"
| "insert_sorted cmp x (y # ys) =
     (if comes_after (cmp x y) then y # insert_sorted cmp x ys else x # y # ys)"

definition Array_sort :: "('a \<Rightarrow> 'a \<Rightarrow> int option) \<Rightarrow> 'a list \<Rightarrow> 'a list" where
  "Array_sort cmp xs = foldr (insert_sorted cmp) xs []"

section \<open>The scope filter of the supervisor dashboard\<close>

text \<open>
  \<^verbatim>\<open>data ? Object.entries(data).map(([id, c]) => ({ id, ...c })) : []\<close>.
  \<^verbatim>\<open>Object.entries\<close> is only reached with a truthy value, on which it cannot raise.
\<close>

definition snapshot_list :: "jsval \<Rightarrow> jsval list" where
  "snapshot_list data =
     (if truthy data
      then map (\<lambda>(id, c). Obj (spread_into [(''id'', Str id)] c)) (own_props data)
      else [])"

text \<open>\<^verbatim>\<open>user?.assignedClassIds?.includes(x)\<close>\<close>

definition assigned_includes :: "jsval \<Rightarrow> jsval \<Rightarrow> js_error + jsval" where
  "assigned_includes user x =
     (if nullish user then Inr Undefined
      else let ids = get_prop user ''assignedClassIds''
           in if nullish ids then Inr Undefined else includes_js ids x)"

text \<open>
  The three listeners of the effect, as functions of the session and the delivered snapshot;
  each returns the list it hands to its state setter, or the error the callback raises.
\<close>

definition classes_listener :: "jsval \<Rightarrow> jsval \<Rightarrow> js_error + jsval list" where
  "classes_listener user data =
     filter_js (\<lambda>c. assigned_includes user (get_prop c ''id'')) (snapshot_list data)"

definition students_listener :: "jsval \<Rightarrow> jsval \<Rightarrow> js_error + jsval list" where
  "students_listener user data =
     filter_js (\<lambda>s. assigned_includes user (get_prop s ''classId'')) (snapshot_list data)"

text \<open>
  \<^verbatim>\<open>new Date(v).getTime()\<close> is a parameter \<open>getTime\<close>: the time value in
  milliseconds, or \<open>None\<close> for NaN (an invalid date).
\<close>

definition createdAt_compare :: "(jsval \<Rightarrow> int option) \<Rightarrow> jsval \<Rightarrow> jsval \<Rightarrow> int option" where
  "createdAt_compare getTime a b =
     (case getTime (get_prop b ''createdAt'') of
        None \<Rightarrow> None
      | Some tb \<Rightarrow>
          (case getTime (get_prop a ''createdAt'') of
             None \<Rightarrow> None
           | Some ta \<Rightarrow> Some (tb - ta)))"

definition announcement_visible :: "jsval \<Rightarrow> jsval \<Rightarrow> js_error + jsval" where
  "announcement_visible user a =
     (if \<not> truthy (get_prop a ''classId'') then Inr (Bool True)
      else assigned_includes user (get_prop a ''classId''))"

definition announcements_listener ::
  "(jsval \<Rightarrow> int option) \<Rightarrow> jsval \<Rightarrow> jsval \<Rightarrow> js_error + jsval list" where
  "announcements_listener getTime user data =
     (case filter_js (announcement_visible user) (snapshot_list data) of
        Inl e \<Rightarrow> Inl e
      | Inr filtered \<Rightarrow> Inr (Array_sort (createdAt_compare getTime) filtered))"

section \<open>\<^verbatim>\<open>JSON.stringify\<close> and \<^verbatim>\<open>JSON.parse\<close>\<close>

text \<open>
  The text layer of the durable slot.  As the values are, strings are lists of 8-bit
  characters and numbers are integers; the fragment of JSON covers \<^verbatim>\<open>null\<close>,
  \<^verbatim>\<open>true\<close>, \<^verbatim>\<open>false\<close>, integer literals, strings with the escapes of the characters
  below 256, arrays and objects, with white space between tokens.  Three things set the
  parser apart from \<^verbatim>\<open>JSON.parse\<close>.  A number with a fraction or an exponent and an escape
  of a character from 256 on are outside the fragment and rejected here, where
  \<^verbatim>\<open>JSON.parse\<close> takes them; no text written from a value of the model contains them.
  An integer literal is read exactly, where JavaScript rounds one beyond 2 to the power 53.
  The object read from a text lists its properties in the order of the text, where
  JavaScript enumerates the names that are array indices first; no field of a session has
  such a name.
\<close>

fun hex_digit :: "nat \<Rightarrow> char" where
  "hex_digit n = (if n < 10 then char_of (48 + n) else char_of (87 + n))"

definition escape_char :: "char \<Rightarrow> string" where
  "escape_char c =
     (if c = CHR 0x22 then [CHR 0x5C, CHR 0x22]
      else if c = CHR 0x5C then [CHR 0x5C, CHR 0x5C]
      else if c = CHR 0x08 then [CHR 0x5C, CHR ''b'']
      else if c = CHR 0x0C then [CHR 0x5C, CHR ''f'']
      else if c = CHR 0x0A then [CHR 0x5C, CHR ''n'']
      else if c = CHR 0x0D then [CHR 0x5C, CHR ''r'']
      else if c = CHR 0x09 then [CHR 0x5C, CHR ''t'']
      else if (of_char c :: nat) < 32
        then [CHR 0x5C, CHR ''u'', CHR ''0'', CHR ''0'',
              hex_digit (of_char c div 16), hex_digit (of_char c mod 16)]
      else [c])"

definition quote :: "string \<Rightarrow> string" where
  "quote s = CHR 0x22 # concat (map escape_char s) @ [CHR 0x22]"

text \<open>
  The serialisation of a value inside a larger one.  A property whose value is
  \<^verbatim>\<open>undefined\<close> is left out of its object; \<^verbatim>\<open>undefined\<close> in an array is written
  \<^verbatim>\<open>null\<close>.
\<close>

fun JSON_value :: "jsval \<Rightarrow> string"
  and JSON_elements :: "jsval list \<Rightarrow> string list"
  and JSON_members :: "(string \<times> jsval) list \<Rightarrow> string list" where
  "JSON_value Undefined = ''null''"
| "JSON_value Null = ''null''"
| "JSON_value (Bool b) = (if b then ''true'' else ''false'')"
| "JSON_value (Num n) = string_of_int n"
| "JSON_value (Str s) = quote s"
| "JSON_value (Arr vs) = ''['' @ join_comma (JSON_elements vs) @ '']''"
| "JSON_value (Obj ps) = ''{'' @ join_comma (JSON_members ps) @ ''}''"
| "JSON_elements [] = []"
| "JSON_elements (v # vs) = JSON_value v # JSON_elements vs"
| "JSON_members [] = []"
| "JSON_members ((k, v) # ps) =
     (if v = Undefined then JSON_members ps
      else (quote k @ '':'' @ JSON_value v) # JSON_members ps)"

text \<open>
  \<^verbatim>\<open>JSON.stringify(v)\<close> for the values the program passes to it, which are object
  literals (for \<^verbatim>\<open>undefined\<close> itself \<^verbatim>\<open>JSON.stringify\<close> returns no string).
\<close>

definition JSON_stringify :: "jsval \<Rightarrow> string" where
  "JSON_stringify v = JSON_value v"

definition is_ws :: "char \<Rightarrow> bool" where
  "is_ws c = (c = CHR 0x20 \<or> c = CHR 0x09 \<or> c = CHR 0x0A \<or> c = CHR 0x0D)"

definition skip_ws :: "string \<Rightarrow> string" where
  "skip_ws cs = dropWhile is_ws cs"

definition is_digit :: "char \<Rightarrow> bool" where
  "is_digit c = (48 \<le> (of_char c :: nat) \<and> (of_char c :: nat) \<le> 57)"

definition nat_of_digits :: "string \<Rightarrow> nat" where
  "nat_of_digits ds = foldl (\<lambda>a c. 10 * a + (of_char c - 48)) 0 ds"

definition hex_value :: "char \<Rightarrow> nat option" where
  "hex_value c =
     (let n = (of_char c :: nat)
      in if 48 \<le> n \<and> n \<le> 57 then Some (n - 48)
         else if 97 \<le> n \<and> n \<le> 102 then Some (n - 87)
         else if 65 \<le> n \<and> n \<le> 70 then Some (n - 55)
         else None)"

definition hex4 :: "char \<Rightarrow> char \<Rightarrow> char \<Rightarrow> char \<Rightarrow> nat option" where
  "hex4 a b c d =
     (case (hex_value a, hex_value b, hex_value c, hex_value d) of
        (Some w, Some x, Some y, Some z) \<Rightarrow> Some (((w * 16 + x) * 16 + y) * 16 + z)
      | _ \<Rightarrow> None)"

definition unescape :: "char \<Rightarrow> char option" where
  "unescape e =
     (if e = CHR 0x22 then Some (CHR 0x22)
      else if e = CHR 0x5C then Some (CHR 0x5C)
      else if e = CHR ''/'' then Some (CHR ''/'')
      else if e = CHR ''b'' then Some (CHR 0x08)
      else if e = CHR ''f'' then Some (CHR 0x0C)
      else if e = CHR ''n'' then Some (CHR 0x0A)
      else if e = CHR ''r'' then Some (CHR 0x0D)
      else if e = CHR ''t'' then Some (CHR 0x09)
      else None)"

definition cons_char :: "char \<Rightarrow> (string \<times> string) option \<Rightarrow> (string \<times> string) option" where
  "cons_char c r = (case r of None \<Rightarrow> None | Some (s, rest) \<Rightarrow> Some (c # s, rest))"

text \<open>The characters of a string literal after its opening quote, up to the closing one.\<close>

fun string_chars :: "string \<Rightarrow> (string \<times> string) option" where
  "string_chars [] = None"
| "string_chars (c # cs) =
     (if c = CHR 0x22 then Some ([], cs)
      else if c = CHR 0x5C then
        (case cs of
           [] \<Rightarrow> None
         | e # es \<Rightarrow>
             if e = CHR ''u'' then
               (case es of
                  h1 # h2 # h3 # h4 # rest \<Rightarrow>
                    (case hex4 h1 h2 h3 h4 of
                       None \<Rightarrow> None
                     | Some n \<Rightarrow> if n < 256 then cons_char (char_of n) (string_chars rest) else None)
                | _ \<Rightarrow> None)
             else
               (case unescape e of
                  None \<Rightarrow> None
                | Some d \<Rightarrow> cons_char d (string_chars es)))
      else if (of_char c :: nat) < 32 then None
      else cons_char c (string_chars cs))"

text \<open>An integer literal: \<^verbatim>\<open>-?(0|[1-9][0-9]*)\<close>.\<close>

definition number_literal :: "string \<Rightarrow> (jsval \<times> string) option" where
  "number_literal cs =
     (let neg = (cs \<noteq> [] \<and> hd cs = CHR ''-'');
          ds = (if neg then tl cs else cs)
      in if ds = [] \<or> \<not> is_digit (hd ds) then None
         else if hd ds = CHR ''0'' then Some (Num 0, tl ds)
         else let n = int (nat_of_digits (takeWhile is_digit ds))
              in Some (Num (if neg then - n else n), dropWhile is_digit ds))"

text \<open>
  The recursive-descent parser, with a bound on the depth of its recursion.  A
  well-formed value needs no more of it than it has characters (each level of nesting and
  each further element takes at least two), so \<open>JSON_parse\<close> starts with the length
  of the text.
\<close>

fun parse_value :: "nat \<Rightarrow> string \<Rightarrow> (jsval \<times> string) option"
  and parse_elements :: "nat \<Rightarrow> string \<Rightarrow> (jsval list \<times> string) option"
  and parse_members ::
    "nat \<Rightarrow> (string \<times> jsval) list \<Rightarrow> string \<Rightarrow> ((string \<times> jsval) list \<times> string) option"
  where
  "parse_value 0 cs = None"
| "parse_value (Suc n) cs =
     (case skip_ws cs of
        [] \<Rightarrow> None
      | c # rest \<Rightarrow>
          if c = CHR ''{'' then
            (case skip_ws rest of
               [] \<Rightarrow> None
             | d # rest' \<Rightarrow>
                 if d = CHR ''}'' then Some (Obj [], rest')
                 else (case parse_members n [] (d # rest') of
                         None \<Rightarrow> None
                       | Some (ps, r) \<Rightarrow> Some (Obj ps, r)))
          else if c = CHR ''['' then
            (case skip_ws rest of
               [] \<Rightarrow> None
             | d # rest' \<Rightarrow>
                 if d = CHR '']'' then Some (Arr [], rest')
                 else (case parse_elements n (d # rest') of
                         None \<Rightarrow> None
                       | Some (vs, r) \<Rightarrow> Some (Arr vs, r)))
          else if c = CHR 0x22 then
            (case string_chars rest of
               None \<Rightarrow> None
             | Some (s, r) \<Rightarrow> Some (Str s, r))
          else if starts_with ''true'' (c # rest) then Some (Bool True, drop 4 (c # rest))
          else if starts_with ''false'' (c # rest) then Some (Bool False, drop 5 (c # rest))
          else if starts_with ''null'' (c # rest) then Some (Null, drop 4 (c # rest))
          else number_literal (c # rest))"
| "parse_elements 0 cs = None"
| "parse_elements (Suc n) cs =
     (case parse_value n cs of
        None \<Rightarrow> None
      | Some (v, r) \<Rightarrow>
          (case skip_ws r of
             [] \<Rightarrow> None
           | d # r' \<Rightarrow>
               if d = CHR '','' then
                 (case parse_elements n r' of
                    None \<Rightarrow> None
                  | Some (vs, r'') \<Rightarrow> Some (v # vs, r''))
               else if d = CHR '']'' then Some ([v], r')
               else None))"
| "parse_members 0 acc cs = None"
| "parse_members (Suc n) acc cs =
     (case skip_ws cs of
        [] \<Rightarrow> None
      | q # cs1 \<Rightarrow>
          if q \<noteq> CHR 0x22 then None
          else
            (case string_chars cs1 of
               None \<Rightarrow> None
             | Some (k, cs2) \<Rightarrow>
                 (case skip_ws cs2 of
                    [] \<Rightarrow> None
                  | colon # cs3 \<Rightarrow>
                      if colon \<noteq> CHR '':'' then None
                      else
                        (case parse_value n cs3 of
                           None \<Rightarrow> None
                         | Some (v, cs4) \<Rightarrow>
                             (case skip_ws cs4 of
                                [] \<Rightarrow> None
                              | d # cs5 \<Rightarrow>
                                  if d = CHR '','' then parse_members n (obj_set k v acc) cs5
                                  else if d = CHR ''}'' then Some (obj_set k v acc, cs5)
                                  else None)))))"

definition JSON_parse :: "string \<Rightarrow> js_error + jsval" where
  "JSON_parse s =
     (case parse_value (Suc (length s)) s of
        None \<Rightarrow> Inl SyntaxError
      | Some (v, rest) \<Rightarrow> if skip_ws rest = [] then Inr v else Inl SyntaxError)"

section \<open>The session manager\<close>

text \<open>
  The state of \<^verbatim>\<open>AuthProvider\<close>: the two \<^verbatim>\<open>useState\<close> cells and the
  \<^verbatim>\<open>crescentUser\<close> slot of \<^verbatim>\<open>localStorage\<close> (\<open>None\<close> when the slot is absent).  No
  session is \<^verbatim>\<open>user = null\<close>.
\<close>

record auth_state =
  user :: jsval
  isLoading :: bool
  crescentUser :: "string option"

text \<open>The state of a process that has just started, over a given durable slot.\<close>

definition fresh_process :: "string option \<Rightarrow> auth_state" where
  "fresh_process slot = \<lparr>user = Null, isLoading = True, crescentUser = slot\<rparr>"

text \<open>
  The effect run once at start.  \<^verbatim>\<open>getItem\<close> yields \<^verbatim>\<open>null\<close> for an absent slot, and
  the empty string is falsy as well; \<^verbatim>\<open>JSON.parse\<close> is not guarded, so its SyntaxError
  leaves the effect before \<^verbatim>\<open>setIsLoading(false)\<close>.
\<close>

definition restoreSession :: "auth_state \<Rightarrow> js_error + auth_state" where
  "restoreSession st =
     (case crescentUser st of
        None \<Rightarrow> Inr (st\<lparr>isLoading := False\<rparr>)
      | Some savedUser \<Rightarrow>
          if savedUser = [] then Inr (st\<lparr>isLoading := False\<rparr>)
          else (case JSON_parse savedUser of
                  Inl e \<Rightarrow> Inl e
                | Inr v \<Rightarrow> Inr (st\<lparr>user := v, isLoading := False\<rparr>)))"

record login_result =
  success :: bool
  error :: "string option"

definition admin_userData :: "jsval \<Rightarrow> jsval" where
  "admin_userData adminData =
     Obj [(''id'', get_prop adminData ''id''),
          (''username'', get_prop adminData ''username''),
          (''name'', get_prop adminData ''name''),
          (''role'', Str ''admin'')]"

definition teacher_userData :: "string \<Rightarrow> jsval \<Rightarrow> jsval" where
  "teacher_userData key teacher =
     Obj [(''id'', Str key),
          (''username'', get_prop teacher ''username''),
          (''name'', get_prop teacher ''name''),
          (''role'', Str ''teacher'')]"

definition student_userData :: "string \<Rightarrow> jsval \<Rightarrow> jsval" where
  "student_userData key student =
     Obj [(''id'', Str key),
          (''username'', get_prop student ''username''),
          (''name'', get_prop student ''name''),
          (''role'', Str ''student''),
          (''classId'', get_prop student ''classId''),
          (''className'', get_prop student ''className''),
          (''passwordChanged'',
             (if truthy (get_prop student ''passwordChanged'')
              then get_prop student ''passwordChanged'' else Bool False))]"

text \<open>
  \<^verbatim>\<open>localStorage.setItem('crescentUser', text)\<close> is a parameter \<open>setItem\<close>: for the
  text to store, \<open>None\<close> when the slot takes it, or the error the call raises (a full or
  disabled storage), the slot staying as it was.

  \<^verbatim>\<open>setUser(userData); localStorage.setItem('crescentUser', JSON.stringify(userData));
  return { success: true }\<close>.  The session is replaced before the write is attempted, so an
  error of the write leaves this code with the session already replaced.
\<close>

definition sign_in ::
  "(string \<Rightarrow> js_error option) \<Rightarrow> jsval \<Rightarrow> auth_state \<Rightarrow>
   js_error \<times> auth_state + login_result \<times> auth_state" where
  "sign_in setItem userData st =
     (case setItem (JSON_stringify userData) of
        Some e \<Rightarrow> Inl (e, st\<lparr>user := userData\<rparr>)
      | None \<Rightarrow>
          Inr (\<lparr>success = True, error = None\<rparr>,
               st\<lparr>user := userData, crescentUser := Some (JSON_stringify userData)\<rparr>))"

text \<open>
  \<^verbatim>\<open>r.username === username && r.password === password\<close> on a record that is not
  \<^verbatim>\<open>null\<close>; the inputs are strings, so strict equality holds for an equal string only.
\<close>

definition credentials_equal :: "jsval \<Rightarrow> string \<Rightarrow> string \<Rightarrow> bool" where
  "credentials_equal r username password \<longleftrightarrow>
     get_prop r ''username'' = Str username \<and> get_prop r ''password'' = Str password"

text \<open>
  The two \<^verbatim>\<open>for ... of Object.entries(...)\<close> loops: the session data built at the first
  record whose \<^verbatim>\<open>username\<close> and \<^verbatim>\<open>password\<close> are strictly equal to the inputs,
  \<open>None\<close> when the loop runs to its end, a TypeError at a record that is \<^verbatim>\<open>null\<close>.
\<close>

fun scan_teachers :: "(string \<times> jsval) list \<Rightarrow> string \<Rightarrow> string \<Rightarrow> js_error + jsval option" where
  "scan_teachers [] username password = Inr None"
| "scan_teachers ((key, teacher) # rest) username password =
     (if nullish teacher then Inl TypeError
      else if credentials_equal teacher username password
      then Inr (Some (teacher_userData key teacher))
      else scan_teachers rest username password)"

fun scan_students :: "(string \<times> jsval) list \<Rightarrow> string \<Rightarrow> string \<Rightarrow> js_error + jsval option" where
  "scan_students [] username password = Inr None"
| "scan_students ((key, student) # rest) username password =
     (if nullish student then Inl TypeError
      else if credentials_equal student username password
      then Inr (Some (student_userData key student))
      else scan_students rest username password)"

text \<open>
  The body of the \<^verbatim>\<open>try\<close> block.  \<open>dbGet\<close> is the point read of the remote store: for
  a path, the value found there (\<^verbatim>\<open>null\<close> when there is none) or the rejection of the
  promise.  What the body raises is paired with the state at that point.
\<close>

definition login_try ::
  "(string \<Rightarrow> js_error + jsval) \<Rightarrow> (string \<Rightarrow> js_error option) \<Rightarrow> string \<Rightarrow> string \<Rightarrow>
   auth_state \<Rightarrow> js_error \<times> auth_state + login_result \<times> auth_state" where
  "login_try dbGet setItem username password st =
     (case dbGet ''users/admin'' of
        Inl e \<Rightarrow> Inl (e, st)
      | Inr adminData \<Rightarrow>
          if truthy adminData \<and> credentials_equal adminData username password
          then sign_in setItem (admin_userData adminData) st
          else
            (case dbGet ''teachers'' of
               Inl e \<Rightarrow> Inl (e, st)
             | Inr teachers \<Rightarrow>
                 (case (if truthy teachers
                        then scan_teachers (own_props teachers) username password
                        else Inr None) of
                    Inl e \<Rightarrow> Inl (e, st)
                  | Inr (Some userData) \<Rightarrow> sign_in setItem userData st
                  | Inr None \<Rightarrow>
                      (case dbGet ''students'' of
                         Inl e \<Rightarrow> Inl (e, st)
                       | Inr students \<Rightarrow>
                           (case (if truthy students
                                  then scan_students (own_props students) username password
                                  else Inr None) of
                              Inl e \<Rightarrow> Inl (e, st)
                            | Inr (Some userData) \<Rightarrow> sign_in setItem userData st
                            | Inr None \<Rightarrow>
                                Inr (\<lparr>success = False,
                                      error = Some ''Invalid username or password''\<rparr>, st))))))"

text \<open>
  \<^verbatim>\<open>login\<close>: the \<^verbatim>\<open>catch\<close> turns whatever the body raised into a failure value and
  undoes nothing: the state is the one at the raise.
\<close>

definition login ::
  "(string \<Rightarrow> js_error + jsval) \<Rightarrow> (string \<Rightarrow> js_error option) \<Rightarrow> string \<Rightarrow> string \<Rightarrow>
   auth_state \<Rightarrow> login_result \<times> auth_state" where
  "login dbGet setItem username password st =
     (case login_try dbGet setItem username password st of
        Inl (e, st1) \<Rightarrow>
          (\<lparr>success = False, error = Some ''Login failed. Please try again.''\<rparr>, st1)
      | Inr r \<Rightarrow> r)"

definition logout :: "auth_state \<Rightarrow> auth_state" where
  "logout st = st\<lparr>user := Null, crescentUser := None\<rparr>"

text \<open>
  \<^verbatim>\<open>updateUser(data)\<close>: \<^verbatim>\<open>{ ...user, ...data }\<close> when \<^verbatim>\<open>user\<close> is truthy.
  There is no \<^verbatim>\<open>try\<close> here: the result is the error the write raised, if any, and
  the state.
\<close>

definition updateUser ::
  "(string \<Rightarrow> js_error option) \<Rightarrow> jsval \<Rightarrow> auth_state \<Rightarrow> js_error option \<times> auth_state" where
  "updateUser setItem data st =
     (if truthy (user st)
      then let updatedUser = Obj (spread_into (spread_into [] (user st)) data)
           in (case setItem (JSON_stringify updatedUser) of
                 Some e \<Rightarrow> (Some e, st\<lparr>user := updatedUser\<rparr>)
               | None \<Rightarrow>
                   (None, st\<lparr>user := updatedUser,
                             crescentUser := Some (JSON_stringify updatedUser)\<rparr>))
      else (None, st))"

section \<open>Notions used to state the properties\<close>

text \<open>The records a scan of a credential collection visits: none when the collection is falsy.\<close>

definition records :: "jsval \<Rightarrow> (string \<times> jsval) list" where
  "records c = (if truthy c then own_props c else [])"

text \<open>
  \<open>(key, r)\<close> is the first record of \<open>rs\<close> whose credentials equal the inputs, and no record
  before it is \<^verbatim>\<open>null\<close>.
\<close>

definition first_match ::
  "(string \<times> jsval) list \<Rightarrow> string \<Rightarrow> string \<Rightarrow> string \<Rightarrow> jsval \<Rightarrow> bool" where
  "first_match rs username password key r \<longleftrightarrow>
     (\<exists>pre post. rs = pre @ (key, r) # post
        \<and> list_all (\<lambda>(k, r'). \<not> nullish r' \<and> \<not> credentials_equal r' username password) pre
        \<and> credentials_equal r username password)"

definition no_match :: "(string \<times> jsval) list \<Rightarrow> string \<Rightarrow> string \<Rightarrow> bool" where
  "no_match rs username password \<longleftrightarrow>
     list_all (\<lambda>(k, r). \<not> nullish r \<and> \<not> credentials_equal r username password) rs"

text \<open>
  The invariant of the data model, in the words of the specification: a student session has
  \<^verbatim>\<open>classId\<close> and \<^verbatim>\<open>className\<close> and no \<^verbatim>\<open>assignedClassIds\<close>, a supervisor session has
  \<^verbatim>\<open>assignedClassIds\<close> and neither class field, an admin or teacher session has none of
  the three.  A field is populated when it is neither \<^verbatim>\<open>undefined\<close> nor \<^verbatim>\<open>null\<close>.
\<close>

definition populated :: "jsval \<Rightarrow> string \<Rightarrow> bool" where
  "populated s k \<longleftrightarrow> \<not> nullish (get_prop s k)"

definition session_invariant :: "jsval \<Rightarrow> bool" where
  "session_invariant s \<longleftrightarrow>
     (if get_prop s ''role'' = Str ''student''
      then populated s ''classId'' \<and> populated s ''className''
           \<and> \<not> populated s ''assignedClassIds''
      else if get_prop s ''role'' = Str ''supervisor''
      then populated s ''assignedClassIds''
           \<and> \<not> populated s ''classId'' \<and> \<not> populated s ''className''
      else if get_prop s ''role'' = Str ''admin'' \<or> get_prop s ''role'' = Str ''teacher''
      then \<not> populated s ''classId'' \<and> \<not> populated s ''className''
           \<and> \<not> populated s ''assignedClassIds''
      else True)"

text \<open>
  What a value becomes on its way through \<^verbatim>\<open>JSON.stringify\<close> and \<^verbatim>\<open>JSON.parse\<close>:
  properties whose value is \<^verbatim>\<open>undefined\<close> are gone, \<^verbatim>\<open>undefined\<close> in an array is
  \<^verbatim>\<open>null\<close>, and a key is defined once.
\<close>

fun strip :: "jsval \<Rightarrow> jsval"
  and strip_elements :: "jsval list \<Rightarrow> jsval list"
  and strip_members :: "(string \<times> jsval) list \<Rightarrow> (string \<times> jsval) list \<Rightarrow> (string \<times> jsval) list"
  where
  "strip Undefined = Null"
| "strip Null = Null"
| "strip (Bool b) = Bool b"
| "strip (Num n) = Num n"
| "strip (Str s) = Str s"
| "strip (Arr vs) = Arr (strip_elements vs)"
| "strip (Obj ps) = Obj (strip_members ps [])"
| "strip_elements [] = []"
| "strip_elements (v # vs) = strip v # strip_elements vs"
| "strip_members [] acc = acc"
| "strip_members ((k, v) # ps) acc =
     (if v = Undefined then strip_members ps acc
      else strip_members ps (obj_set k (strip v) acc))"

text \<open>
  The values a read of the remote store can deliver: JSON data, in which nothing is
  \<^verbatim>\<open>undefined\<close> and the keys of an object are distinct.
\<close>

fun json_data :: "jsval \<Rightarrow> bool"
  and json_elements :: "jsval list \<Rightarrow> bool"
  and json_members :: "(string \<times> jsval) list \<Rightarrow> bool" where
  "json_data Undefined = False"
| "json_data Null = True"
| "json_data (Bool b) = True"
| "json_data (Num n) = True"
| "json_data (Str s) = True"
| "json_data (Arr vs) = json_elements vs"
| "json_data (Obj ps) = (distinct (map fst ps) \<and> json_members ps)"
| "json_elements [] = True"
| "json_elements (v # vs) = (json_data v \<and> json_elements vs)"
| "json_members [] = True"
| "json_members ((k, v) # ps) = (json_data v \<and> json_members ps)"

text \<open>
  What may stand behind an integer literal for the literal to end there: nothing, or a
  character that is no digit.
\<close>

definition follow :: "string \<Rightarrow> bool" where
  "follow rest \<longleftrightarrow> rest = [] \<or> \<not> is_digit (hd rest)"

text \<open>The storage takes the serialisation of \<open>v\<close>.\<close>

definition accepts :: "(string \<Rightarrow> js_error option) \<Rightarrow> jsval \<Rightarrow> bool" where
  "accepts setItem v \<longleftrightarrow> setItem (JSON_stringify v) = None"

section \<open>Properties of the scope filter\<close>

lemma filter_js_Inr:
  "\<forall>x\<in>set xs. p x = Inr (q x) \<Longrightarrow> filter_js p xs = Inr (filter (\<lambda>x. truthy (q x)) xs)"
  by (induction xs) auto

lemma filter_js_is_filter:
  "filter_js p xs = Inr ys \<Longrightarrow>
   ys = filter (\<lambda>x. case p x of Inl e \<Rightarrow> False | Inr b \<Rightarrow> truthy b) xs"
  by (induction xs arbitrary: ys) (auto split: sum.splits if_splits)

lemma mset_insert_sorted: "mset (insert_sorted cmp x ys) = add_mset x (mset ys)"
  by (induction ys) auto

lemma mset_Array_sort: "mset (Array_sort cmp xs) = mset xs"
  by (induction xs) (auto simp: Array_sort_def mset_insert_sorted)

lemma insert_sorted_insort_key:
  "\<forall>y\<in>set ys. comes_after (cmp x y) \<longleftrightarrow> f y < f x \<Longrightarrow>
   insert_sorted cmp x ys = insort_key f x ys"
  for f :: "'a \<Rightarrow> int"
  by (induction ys) auto

lemma Array_sort_sort_key:
  "\<forall>x\<in>set xs. \<forall>y\<in>set xs. comes_after (cmp x y) \<longleftrightarrow> f y < f x \<Longrightarrow>
   Array_sort cmp xs = sort_key f xs"
  for f :: "'a \<Rightarrow> int"
proof (induction xs)
  case Nil
  then show ?case by (simp add: Array_sort_def)
next
  case (Cons x xs)
  then have IH: "Array_sort cmp xs = sort_key f xs" by simp
  have "insert_sorted cmp x (sort_key f xs) = insort_key f x (sort_key f xs)"
    using Cons.prems by (intro insert_sorted_insort_key) simp
  then show ?case using IH by (simp add: Array_sort_def sort_key_def)
qed

lemma createdAt_compare_valid:
  "getTime (get_prop a ''createdAt'') \<noteq> None \<Longrightarrow> getTime (get_prop b ''createdAt'') \<noteq> None \<Longrightarrow>
   comes_after (createdAt_compare getTime a b) \<longleftrightarrow>
   - the (getTime (get_prop b ''createdAt'')) < - the (getTime (get_prop a ''createdAt''))"
  by (auto simp: createdAt_compare_def)

lemma assigned_includes_strings:
  "\<not> nullish session \<Longrightarrow> get_prop session ''assignedClassIds'' = Arr (map Str ids) \<Longrightarrow>
   assigned_includes session x = Inr (Bool (x \<in> Str ` set ids))"
  by (auto simp: assigned_includes_def list_ex_iff)

lemma assigned_includes_absent:
  "session = Null \<or> get_prop session ''assignedClassIds'' = Undefined \<Longrightarrow>
   assigned_includes session x = Inr Undefined"
  by (auto simp: assigned_includes_def)

text \<open>
  C6.  For a session whose \<^verbatim>\<open>assignedClassIds\<close> is an array of class ids, the classes
  listener keeps exactly the classes whose \<^verbatim>\<open>id\<close> is in that array, the students listener
  exactly the students whose \<^verbatim>\<open>classId\<close> is in it, and the announcements listener exactly
  the announcements whose \<^verbatim>\<open>classId\<close> is unset (the test of the code is \<^verbatim>\<open>!a.classId\<close>:
  absent or empty) or in it.  Each listener is a function of the session and of its own
  collection's snapshot only: membership is the id match, and the classes collection is not
  consulted for students or announcements.
\<close>

theorem supervisor_scope_filter:
  assumes "\<not> nullish session"
      and "get_prop session ''assignedClassIds'' = Arr (map Str ids)"
  shows "classes_listener session classes =
           Inr (filter (\<lambda>c. get_prop c ''id'' \<in> Str ` set ids) (snapshot_list classes))
       \<and> students_listener session students =
           Inr (filter (\<lambda>s. get_prop s ''classId'' \<in> Str ` set ids) (snapshot_list students))
       \<and> (\<exists>visible.
             announcements_listener getTime session announcements = Inr visible
           \<and> mset visible =
               mset (filter (\<lambda>a. \<not> truthy (get_prop a ''classId'')
                                \<or> get_prop a ''classId'' \<in> Str ` set ids)
                      (snapshot_list announcements)))"
proof -
  have inc: "\<And>x. assigned_includes session x = Inr (Bool (x \<in> Str ` set ids))"
    using assms by (rule assigned_includes_strings)
  have c: "classes_listener session classes =
           Inr (filter (\<lambda>c. get_prop c ''id'' \<in> Str ` set ids) (snapshot_list classes))"
    unfolding classes_listener_def
    using filter_js_Inr [where p = "\<lambda>c. assigned_includes session (get_prop c ''id'')"
        and q = "\<lambda>c. Bool (get_prop c ''id'' \<in> Str ` set ids)"]
    by (simp add: inc)
  have s: "students_listener session students =
           Inr (filter (\<lambda>s. get_prop s ''classId'' \<in> Str ` set ids) (snapshot_list students))"
    unfolding students_listener_def
    using filter_js_Inr [where p = "\<lambda>c. assigned_includes session (get_prop c ''classId'')"
        and q = "\<lambda>c. Bool (get_prop c ''classId'' \<in> Str ` set ids)"]
    by (simp add: inc)
  have "filter_js (announcement_visible session) (snapshot_list announcements) =
        Inr (filter (\<lambda>a. truthy (Bool (\<not> truthy (get_prop a ''classId'')
                                \<or> get_prop a ''classId'' \<in> Str ` set ids)))
               (snapshot_list announcements))"
    by (rule filter_js_Inr) (simp add: announcement_visible_def inc)
  then have a: "announcements_listener getTime session announcements =
        Inr (Array_sort (createdAt_compare getTime)
              (filter (\<lambda>a. \<not> truthy (get_prop a ''classId'')
                                \<or> get_prop a ''classId'' \<in> Str ` set ids)
               (snapshot_list announcements)))"
    by (simp add: announcements_listener_def)
  show ?thesis
    using c s a by (simp add: mset_Array_sort)
qed

theorem supervisor_scope_filter_witness:
  "classes_listener
     (Obj [(''id'', Str ''s1''), (''role'', Str ''supervisor''),
           (''assignedClassIds'', Arr [Str ''c1''])])
     (Obj [(''c1'', Obj [(''name'', Str ''10-A'')]), (''c2'', Obj [(''name'', Str ''10-B'')])]) =
     Inr [Obj [(''id'', Str ''c1''), (''name'', Str ''10-A'')]]
   \<and> students_listener
     (Obj [(''id'', Str ''s1''), (''role'', Str ''supervisor''),
           (''assignedClassIds'', Arr [Str ''c1''])])
     (Obj [(''p1'', Obj [(''classId'', Str ''c2'')]), (''p2'', Obj [(''classId'', Str ''c1'')]),
           (''p3'', Obj [(''classId'', Str ''gone'')])]) =
     Inr [Obj [(''id'', Str ''p2''), (''classId'', Str ''c1'')]]"
  using supervisor_scope_filter
    [of "Obj [(''id'', Str ''s1''), (''role'', Str ''supervisor''),
              (''assignedClassIds'', Arr [Str ''c1''])]"
        "[''c1'']"
        "Obj [(''c1'', Obj [(''name'', Str ''10-A'')]), (''c2'', Obj [(''name'', Str ''10-B'')])]"
        "Obj [(''p1'', Obj [(''classId'', Str ''c2'')]), (''p2'', Obj [(''classId'', Str ''c1'')]),
              (''p3'', Obj [(''classId'', Str ''gone'')])]"
        "\<lambda>v. None" Null]
  by (simp add: get_prop_def snapshot_list_def spread_into_def)

lemma Array_sort_createdAt:
  assumes "\<forall>a\<in>set xs. getTime (get_prop a ''createdAt'') \<noteq> None"
  shows "Array_sort (createdAt_compare getTime) xs =
         sort_key (\<lambda>a. - the (getTime (get_prop a ''createdAt''))) xs"
  using assms by (intro Array_sort_sort_key) (simp add: createdAt_compare_valid)

lemma Array_sort_createdAt_sorted:
  assumes "\<forall>a\<in>set xs. getTime (get_prop a ''createdAt'') \<noteq> None"
  shows "sorted_wrt (\<lambda>a b. the (getTime (get_prop b ''createdAt''))
                        \<le> the (getTime (get_prop a ''createdAt'')))
           (Array_sort (createdAt_compare getTime) xs)"
proof -
  have "sorted (map (\<lambda>a. - the (getTime (get_prop a ''createdAt'')))
                 (Array_sort (createdAt_compare getTime) xs))"
    by (simp add: Array_sort_createdAt [OF assms])
  then show ?thesis by (simp add: sorted_map)
qed

lemma Array_sort_createdAt_stable:
  assumes "\<forall>a\<in>set xs. getTime (get_prop a ''createdAt'') \<noteq> None"
  shows "filter (\<lambda>a. the (getTime (get_prop a ''createdAt'')) = t)
           (Array_sort (createdAt_compare getTime) xs) =
         filter (\<lambda>a. the (getTime (get_prop a ''createdAt'')) = t) xs"
proof -
  have "filter (\<lambda>a. - the (getTime (get_prop a ''createdAt'')) = - t)
           (sort_key (\<lambda>a. - the (getTime (get_prop a ''createdAt''))) xs) =
        filter (\<lambda>a. - the (getTime (get_prop a ''createdAt'')) = - t) xs"
    by (rule sort_key_stable)
  then show ?thesis by (simp add: Array_sort_createdAt [OF assms])
qed

lemma assigned_includes_truthy:
  "assigned_includes session x = Inr b \<Longrightarrow> truthy b \<longleftrightarrow> b = Bool True"
  by (cases "get_prop session ''assignedClassIds''")
     (auto simp: assigned_includes_def split: if_splits)

lemma announcement_visible_truthy:
  "announcement_visible session a = Inr b \<Longrightarrow> truthy b \<longleftrightarrow> b = Bool True"
  by (auto simp: announcement_visible_def assigned_includes_truthy split: if_splits)

lemma filter_js_Bool:
  assumes "filter_js p xs = Inr ys" and "\<And>x b. p x = Inr b \<Longrightarrow> truthy b \<longleftrightarrow> b = Bool True"
  shows "ys = filter (\<lambda>x. p x = Inr (Bool True)) xs"
proof -
  have "ys = filter (\<lambda>x. case p x of Inl e \<Rightarrow> False | Inr b \<Rightarrow> truthy b) xs"
    using assms(1) by (rule filter_js_is_filter)
  also have "\<dots> = filter (\<lambda>x. p x = Inr (Bool True)) xs"
    by (rule filter_cong) (auto split: sum.splits simp: assms(2))
  finally show ?thesis .
qed

text \<open>
  C7.  The visible announcements are the filtered ones (same elements, same multiplicities)
  in descending order of \<^verbatim>\<open>createdAt\<close>; announcements with the same time keep the order
  they had in the snapshot; classes and students are a \<open>filter\<close> of the snapshot list, so
  they keep its order.  The dates of the visible announcements are assumed to be valid (the
  comparator is consistent then).  The witness is the example of the specification:
  \<^verbatim>\<open>2024-01-01\<close>, \<^verbatim>\<open>2024-03-01\<close>, \<^verbatim>\<open>2024-02-01\<close> come out as \<^verbatim>\<open>03-01\<close>,
  \<^verbatim>\<open>02-01\<close>, \<^verbatim>\<open>01-01\<close>.
\<close>

theorem announcements_sorted_by_createdAt:
  assumes "announcements_listener getTime session announcements = Inr visible"
      and "\<forall>a\<in>set visible. getTime (get_prop a ''createdAt'') \<noteq> None"
  shows "mset visible =
           mset (filter (\<lambda>a. announcement_visible session a = Inr (Bool True))
                  (snapshot_list announcements))
       \<and> sorted_wrt (\<lambda>a b. the (getTime (get_prop b ''createdAt''))
                          \<le> the (getTime (get_prop a ''createdAt''))) visible
       \<and> (\<forall>t. filter (\<lambda>a. the (getTime (get_prop a ''createdAt'')) = t) visible =
                filter (\<lambda>a. the (getTime (get_prop a ''createdAt'')) = t)
                  (filter (\<lambda>a. announcement_visible session a = Inr (Bool True))
                     (snapshot_list announcements)))
       \<and> (\<forall>cs. classes_listener session classes = Inr cs \<longrightarrow>
                cs = filter (\<lambda>c. assigned_includes session (get_prop c ''id'') = Inr (Bool True))
                       (snapshot_list classes))
       \<and> (\<forall>ss. students_listener session students = Inr ss \<longrightarrow>
                ss = filter (\<lambda>s. assigned_includes session (get_prop s ''classId'') = Inr (Bool True))
                       (snapshot_list students))"
proof -
  obtain filtered where f: "filter_js (announcement_visible session) (snapshot_list announcements) = Inr filtered"
    and v: "visible = Array_sort (createdAt_compare getTime) filtered"
    using assms(1) by (auto simp: announcements_listener_def split: sum.splits)
  have filtered: "filtered = filter (\<lambda>a. announcement_visible session a = Inr (Bool True))
                    (snapshot_list announcements)"
    using f by (rule filter_js_Bool) (rule announcement_visible_truthy)
  have "mset visible = mset filtered"
    by (simp add: v mset_Array_sort)
  then have "set visible = set filtered"
    by (rule mset_eq_setD)
  then have valid: "\<forall>a\<in>set filtered. getTime (get_prop a ''createdAt'') \<noteq> None"
    using assms(2) by simp
  have 1: "mset visible = mset (filter (\<lambda>a. announcement_visible session a = Inr (Bool True))
                  (snapshot_list announcements))"
    using \<open>mset visible = mset filtered\<close> filtered by simp
  have 2: "sorted_wrt (\<lambda>a b. the (getTime (get_prop b ''createdAt''))
                          \<le> the (getTime (get_prop a ''createdAt''))) visible"
    unfolding v using valid by (rule Array_sort_createdAt_sorted)
  have 3: "\<forall>t. filter (\<lambda>a. the (getTime (get_prop a ''createdAt'')) = t) visible =
                filter (\<lambda>a. the (getTime (get_prop a ''createdAt'')) = t)
                  (filter (\<lambda>a. announcement_visible session a = Inr (Bool True))
                     (snapshot_list announcements))"
    unfolding v using Array_sort_createdAt_stable [OF valid] filtered by simp
  have 4: "\<forall>cs. classes_listener session classes = Inr cs \<longrightarrow>
                cs = filter (\<lambda>c. assigned_includes session (get_prop c ''id'') = Inr (Bool True))
                       (snapshot_list classes)"
    unfolding classes_listener_def
    by (intro allI impI, erule filter_js_Bool) (rule assigned_includes_truthy)
  have 5: "\<forall>ss. students_listener session students = Inr ss \<longrightarrow>
                ss = filter (\<lambda>s. assigned_includes session (get_prop s ''classId'') = Inr (Bool True))
                       (snapshot_list students)"
    unfolding students_listener_def
    by (intro allI impI, erule filter_js_Bool) (rule assigned_includes_truthy)
  show ?thesis using 1 2 3 4 5 by blast
qed

text \<open>
  C10.  With no session (\<^verbatim>\<open>null\<close>) or a session without \<^verbatim>\<open>assignedClassIds\<close>, no
  listener raises: the class list and the student list are empty, and the announcements are
  exactly those whose \<^verbatim>\<open>classId\<close> is unset (\<^verbatim>\<open>!a.classId\<close>: absent or empty), sorted;
  the sorted list is in descending order of \<^verbatim>\<open>createdAt\<close> when those dates are valid.
\<close>

theorem no_assignment_scope:
  assumes "session = Null \<or> get_prop session ''assignedClassIds'' = Undefined"
  shows "classes_listener session classes = Inr []
       \<and> students_listener session students = Inr []
       \<and> announcements_listener getTime session announcements =
           Inr (Array_sort (createdAt_compare getTime)
                 (filter (\<lambda>a. \<not> truthy (get_prop a ''classId'')) (snapshot_list announcements)))
       \<and> mset (Array_sort (createdAt_compare getTime)
                 (filter (\<lambda>a. \<not> truthy (get_prop a ''classId'')) (snapshot_list announcements))) =
           mset (filter (\<lambda>a. \<not> truthy (get_prop a ''classId'')) (snapshot_list announcements))
       \<and> ((\<forall>a\<in>set (snapshot_list announcements).
               \<not> truthy (get_prop a ''classId'') \<longrightarrow> getTime (get_prop a ''createdAt'') \<noteq> None) \<longrightarrow>
            sorted_wrt (\<lambda>a b. the (getTime (get_prop b ''createdAt''))
                          \<le> the (getTime (get_prop a ''createdAt'')))
              (Array_sort (createdAt_compare getTime)
                 (filter (\<lambda>a. \<not> truthy (get_prop a ''classId'')) (snapshot_list announcements))))"
proof -
  have inc: "\<And>x. assigned_includes session x = Inr Undefined"
    using assms by (rule assigned_includes_absent)
  have c: "classes_listener session classes = Inr []"
    unfolding classes_listener_def
    using filter_js_Inr [where p = "\<lambda>c. assigned_includes session (get_prop c ''id'')"
        and q = "\<lambda>c. Undefined"]
    by (simp add: inc)
  have s: "students_listener session students = Inr []"
    unfolding students_listener_def
    using filter_js_Inr [where p = "\<lambda>c. assigned_includes session (get_prop c ''classId'')"
        and q = "\<lambda>c. Undefined"]
    by (simp add: inc)
  have "filter_js (announcement_visible session) (snapshot_list announcements) =
        Inr (filter (\<lambda>a. truthy (if \<not> truthy (get_prop a ''classId'') then Bool True else Undefined))
               (snapshot_list announcements))"
    by (rule filter_js_Inr) (simp add: announcement_visible_def inc)
  moreover have "(\<lambda>a. truthy (if \<not> truthy (get_prop a ''classId'') then Bool True else Undefined))
     = (\<lambda>a. \<not> truthy (get_prop a ''classId''))"
    by auto
  ultimately have a: "announcements_listener getTime session announcements =
        Inr (Array_sort (createdAt_compare getTime)
              (filter (\<lambda>a. \<not> truthy (get_prop a ''classId'')) (snapshot_list announcements)))"
    by (simp add: announcements_listener_def)
  have srt: "(\<forall>a\<in>set (snapshot_list announcements).
               \<not> truthy (get_prop a ''classId'') \<longrightarrow> getTime (get_prop a ''createdAt'') \<noteq> None) \<longrightarrow>
            sorted_wrt (\<lambda>a b. the (getTime (get_prop b ''createdAt''))
                          \<le> the (getTime (get_prop a ''createdAt'')))
              (Array_sort (createdAt_compare getTime)
                 (filter (\<lambda>a. \<not> truthy (get_prop a ''classId'')) (snapshot_list announcements)))"
    by (intro impI Array_sort_createdAt_sorted) simp
  show ?thesis
    using c s a srt by (simp add: mset_Array_sort)
qed

theorem announcements_sorted_by_createdAt_witness:
  "announcements_listener
     (map_of [(Str ''2024-01-01'', 1704067200000), (Str ''2024-03-01'', 1709251200000),
              (Str ''2024-02-01'', 1706745600000)])
     Null
     (Obj [(''a1'', Obj [(''createdAt'', Str ''2024-01-01'')]),
           (''a2'', Obj [(''createdAt'', Str ''2024-03-01'')]),
           (''a3'', Obj [(''createdAt'', Str ''2024-02-01'')])]) =
   Inr [Obj [(''id'', Str ''a2''), (''createdAt'', Str ''2024-03-01'')],
        Obj [(''id'', Str ''a3''), (''createdAt'', Str ''2024-02-01'')],
        Obj [(''id'', Str ''a1''), (''createdAt'', Str ''2024-01-01'')]]
   \<and> sorted_wrt
        (\<lambda>a b. the (map_of [(Str ''2024-01-01'', 1704067200000), (Str ''2024-03-01'', 1709251200000),
                            (Str ''2024-02-01'', 1706745600000)] (get_prop b ''createdAt''))
             \<le> the (map_of [(Str ''2024-01-01'', 1704067200000), (Str ''2024-03-01'', 1709251200000),
                            (Str ''2024-02-01'', 1706745600000 :: int)] (get_prop a ''createdAt'')))
        [Obj [(''id'', Str ''a2''), (''createdAt'', Str ''2024-03-01'')],
         Obj [(''id'', Str ''a3''), (''createdAt'', Str ''2024-02-01'')],
         Obj [(''id'', Str ''a1''), (''createdAt'', Str ''2024-01-01'')]]"
proof -
  let ?T = "map_of [(Str ''2024-01-01'', 1704067200000 :: int), (Str ''2024-03-01'', 1709251200000),
                    (Str ''2024-02-01'', 1706745600000)]"
  let ?out = "[Obj [(''id'', Str ''a2''), (''createdAt'', Str ''2024-03-01'')],
               Obj [(''id'', Str ''a3''), (''createdAt'', Str ''2024-02-01'')],
               Obj [(''id'', Str ''a1''), (''createdAt'', Str ''2024-01-01'')]]"
  have run: "announcements_listener ?T Null
     (Obj [(''a1'', Obj [(''createdAt'', Str ''2024-01-01'')]),
           (''a2'', Obj [(''createdAt'', Str ''2024-03-01'')]),
           (''a3'', Obj [(''createdAt'', Str ''2024-02-01'')])]) = Inr ?out"
    by (simp add: announcements_listener_def announcement_visible_def snapshot_list_def
        spread_into_def get_prop_def Array_sort_def createdAt_compare_def)
  have valid: "\<forall>a\<in>set ?out. ?T (get_prop a ''createdAt'') \<noteq> None"
    by (simp add: get_prop_def)
  from announcements_sorted_by_createdAt [OF run valid] run show ?thesis
    by blast
qed

theorem no_assignment_scope_witness:
  "classes_listener Null (Obj [(''c1'', Obj [(''name'', Str ''10-A'')])]) = Inr []
   \<and> students_listener Null (Obj [(''p1'', Obj [(''classId'', Str ''c1'')])]) = Inr []
   \<and> announcements_listener (\<lambda>v. None) Null
        (Obj [(''a1'', Obj [(''title'', Str ''Exam''), (''classId'', Str ''c1'')]),
              (''a2'', Obj [(''title'', Str ''Holiday'')])]) =
       Inr [Obj [(''id'', Str ''a2''), (''title'', Str ''Holiday'')]]"
  using no_assignment_scope
    [of Null "Obj [(''c1'', Obj [(''name'', Str ''10-A'')])]"
        "Obj [(''p1'', Obj [(''classId'', Str ''c1'')])]"
        "\<lambda>v. None"
        "Obj [(''a1'', Obj [(''title'', Str ''Exam''), (''classId'', Str ''c1'')]),
              (''a2'', Obj [(''title'', Str ''Holiday'')])]"]
  by (simp add: snapshot_list_def spread_into_def get_prop_def Array_sort_def)

section \<open>Properties of login\<close>

lemma credentials_equal_not_nullish:
  "credentials_equal r u p \<Longrightarrow> \<not> nullish r"
  by (cases r) (auto simp: credentials_equal_def get_prop_def)

lemma scan_teachers_first_match:
  assumes "\<forall>(k, r)\<in>set pre. \<not> nullish r \<and> \<not> credentials_equal r u p"
      and "credentials_equal t u p"
  shows "scan_teachers (pre @ (key, t) # post) u p = Inr (Some (teacher_userData key t))"
  using assms by (induction pre) (auto simp: credentials_equal_not_nullish)

lemma scan_students_first_match:
  assumes "\<forall>(k, r)\<in>set pre. \<not> nullish r \<and> \<not> credentials_equal r u p"
      and "credentials_equal t u p"
  shows "scan_students (pre @ (key, t) # post) u p = Inr (Some (student_userData key t))"
  using assms by (induction pre) (auto simp: credentials_equal_not_nullish)

lemma scan_teachers_no_match:
  "\<forall>(k, r)\<in>set rs. \<not> nullish r \<and> \<not> credentials_equal r u p \<Longrightarrow>
   scan_teachers rs u p = Inr None"
  by (induction rs) auto

lemma scan_students_no_match:
  "\<forall>(k, r)\<in>set rs. \<not> nullish r \<and> \<not> credentials_equal r u p \<Longrightarrow>
   scan_students rs u p = Inr None"
  by (induction rs) auto

lemma scan_teachers_Some:
  "scan_teachers rs u p = Inr (Some ud) \<Longrightarrow>
   \<exists>pre key t post. rs = pre @ (key, t) # post \<and> credentials_equal t u p
      \<and> (\<forall>(k, r)\<in>set pre. \<not> nullish r \<and> \<not> credentials_equal r u p)
      \<and> ud = teacher_userData key t"
proof (induction rs)
  case Nil
  then show ?case by simp
next
  case (Cons a rs)
  obtain k r where a: "a = (k, r)" by (cases a)
  show ?case
  proof (cases "credentials_equal r u p")
    case True
    then have "ud = teacher_userData k r"
      using Cons.prems a by (simp add: credentials_equal_not_nullish)
    then show ?thesis using True a by (intro exI [of _ "[]"] exI [of _ k] exI [of _ r] exI [of _ rs]) simp
  next
    case False
    then have nn: "\<not> nullish r" and rest: "scan_teachers rs u p = Inr (Some ud)"
      using Cons.prems a by (auto split: if_splits)
    from Cons.IH [OF rest] obtain pre key t post where
      "rs = pre @ (key, t) # post" "credentials_equal t u p"
      "\<forall>(k, r)\<in>set pre. \<not> nullish r \<and> \<not> credentials_equal r u p"
      "ud = teacher_userData key t" by blast
    then show ?thesis using a False nn
      by (intro exI [of _ "(k, r) # pre"] exI [of _ key] exI [of _ t] exI [of _ post]) simp
  qed
qed

lemma scan_records_teachers:
  "(if truthy c then scan_teachers (own_props c) u p else Inr None) = scan_teachers (records c) u p"
  by (simp add: records_def)

lemma scan_records_students:
  "(if truthy c then scan_students (own_props c) u p else Inr None) = scan_students (records c) u p"
  by (simp add: records_def)

lemma first_match_teachers:
  "first_match rs u p key t \<Longrightarrow> scan_teachers rs u p = Inr (Some (teacher_userData key t))"
  unfolding first_match_def list_all_iff
  by (auto intro!: scan_teachers_first_match)

lemma first_match_students:
  "first_match rs u p key t \<Longrightarrow> scan_students rs u p = Inr (Some (student_userData key t))"
  unfolding first_match_def list_all_iff
  by (auto intro!: scan_students_first_match)

lemma no_match_teachers: "no_match rs u p \<Longrightarrow> scan_teachers rs u p = Inr None"
  unfolding no_match_def list_all_iff by (rule scan_teachers_no_match)

lemma no_match_students: "no_match rs u p \<Longrightarrow> scan_students rs u p = Inr None"
  unfolding no_match_def list_all_iff by (rule scan_students_no_match)

lemma login_admin:
  assumes "dbGet ''users/admin'' = Inr adminData" "truthy adminData"
    "credentials_equal adminData username password"
  shows "login_try dbGet setItem username password st =
         sign_in setItem (admin_userData adminData) st"
  using assms by (simp add: login_try_def)

lemma login_teacher:
  assumes "dbGet ''users/admin'' = Inr adminData"
    "\<not> (truthy adminData \<and> credentials_equal adminData username password)"
    "dbGet ''teachers'' = Inr teachers"
    "first_match (records teachers) username password key teacher"
  shows "login_try dbGet setItem username password st =
         sign_in setItem (teacher_userData key teacher) st"
  using assms(1-3) first_match_teachers [OF assms(4)]
  by (auto simp: login_try_def scan_records_teachers)

lemma login_student:
  assumes "dbGet ''users/admin'' = Inr adminData"
    "\<not> (truthy adminData \<and> credentials_equal adminData username password)"
    "dbGet ''teachers'' = Inr teachers"
    "no_match (records teachers) username password"
    "dbGet ''students'' = Inr students"
    "first_match (records students) username password key student"
  shows "login_try dbGet setItem username password st =
         sign_in setItem (student_userData key student) st"
  using assms(1-3,5) no_match_teachers [OF assms(4)] first_match_students [OF assms(6)]
  by (auto simp: login_try_def scan_records_teachers scan_records_students)

lemma sign_in_user:
  assumes "login_try dbGet setItem username password st = sign_in setItem ud st"
  shows "user (snd (login dbGet setItem username password st)) = ud"
  using assms by (simp add: login_def sign_in_def split: option.splits)

lemma sign_in_accepted:
  assumes "login_try dbGet setItem username password st = sign_in setItem ud st"
    and "accepts setItem ud"
  shows "login dbGet setItem username password st =
         (\<lparr>success = True, error = None\<rparr>,
          st\<lparr>user := ud, crescentUser := Some (JSON_stringify ud)\<rparr>)"
  using assms by (simp add: login_def sign_in_def accepts_def)

lemma sign_in_refused:
  assumes "login_try dbGet setItem username password st = sign_in setItem ud st"
    and "setItem (JSON_stringify ud) = Some e"
  shows "login dbGet setItem username password st =
         (\<lparr>success = False, error = Some ''Login failed. Please try again.''\<rparr>,
          st\<lparr>user := ud\<rparr>)"
  using assms by (simp add: login_def sign_in_def)

text \<open>
  C3.  \<^verbatim>\<open>login\<close> probes the admin record, then the teachers, then the students, and
  stops at the first match: when the admin record matches, the session is the admin one
  whatever the other two collections hold (a teacher with the same credentials included; they
  are not even read); when the admin record does not match and a teacher does, the session
  is the teacher one whatever the students hold; a student session needs the first two
  probes to find nothing.  The call returns success when the storage takes the session.
\<close>

theorem login_priority:
  "(dbGet ''users/admin'' = Inr adminData \<and> truthy adminData
      \<and> credentials_equal adminData username password
    \<longrightarrow> get_prop (user (snd (login dbGet setItem username password st))) ''role'' = Str ''admin''
      \<and> (accepts setItem (admin_userData adminData) \<longrightarrow>
           fst (login dbGet setItem username password st) = \<lparr>success = True, error = None\<rparr>))
 \<and> (dbGet ''users/admin'' = Inr adminData
      \<and> \<not> (truthy adminData \<and> credentials_equal adminData username password)
      \<and> dbGet ''teachers'' = Inr teachers
      \<and> first_match (records teachers) username password key teacher
    \<longrightarrow> get_prop (user (snd (login dbGet setItem username password st))) ''role'' = Str ''teacher''
      \<and> (accepts setItem (teacher_userData key teacher) \<longrightarrow>
           fst (login dbGet setItem username password st) = \<lparr>success = True, error = None\<rparr>))
 \<and> (dbGet ''users/admin'' = Inr adminData
      \<and> \<not> (truthy adminData \<and> credentials_equal adminData username password)
      \<and> dbGet ''teachers'' = Inr teachers
      \<and> no_match (records teachers) username password
      \<and> dbGet ''students'' = Inr students
      \<and> first_match (records students) username password key' student
    \<longrightarrow> get_prop (user (snd (login dbGet setItem username password st))) ''role'' = Str ''student''
      \<and> (accepts setItem (student_userData key' student) \<longrightarrow>
           fst (login dbGet setItem username password st) = \<lparr>success = True, error = None\<rparr>))"
proof (intro conjI impI; (elim conjE)?)
  assume "dbGet ''users/admin'' = Inr adminData" "truthy adminData"
    "credentials_equal adminData username password"
  then have l: "login_try dbGet setItem username password st =
      sign_in setItem (admin_userData adminData) st"
    by (rule login_admin)
  show "get_prop (user (snd (login dbGet setItem username password st))) ''role'' = Str ''admin''"
    unfolding sign_in_user [OF l] by (simp add: admin_userData_def get_prop_def)
  assume "accepts setItem (admin_userData adminData)"
  then show "fst (login dbGet setItem username password st) = \<lparr>success = True, error = None\<rparr>"
    using sign_in_accepted [OF l] by simp
next
  assume "dbGet ''users/admin'' = Inr adminData"
    "\<not> (truthy adminData \<and> credentials_equal adminData username password)"
    "dbGet ''teachers'' = Inr teachers"
    "first_match (records teachers) username password key teacher"
  then have l: "login_try dbGet setItem username password st =
      sign_in setItem (teacher_userData key teacher) st"
    by (rule login_teacher)
  show "get_prop (user (snd (login dbGet setItem username password st))) ''role'' = Str ''teacher''"
    unfolding sign_in_user [OF l] by (simp add: teacher_userData_def get_prop_def)
  assume "accepts setItem (teacher_userData key teacher)"
  then show "fst (login dbGet setItem username password st) = \<lparr>success = True, error = None\<rparr>"
    using sign_in_accepted [OF l] by simp
next
  assume "dbGet ''users/admin'' = Inr adminData"
    "\<not> (truthy adminData \<and> credentials_equal adminData username password)"
    "dbGet ''teachers'' = Inr teachers"
    "no_match (records teachers) username password"
    "dbGet ''students'' = Inr students"
    "first_match (records students) username password key' student"
  then have l: "login_try dbGet setItem username password st =
      sign_in setItem (student_userData key' student) st"
    by (rule login_student)
  show "get_prop (user (snd (login dbGet setItem username password st))) ''role'' = Str ''student''"
    unfolding sign_in_user [OF l] by (simp add: student_userData_def get_prop_def)
  assume "accepts setItem (student_userData key' student)"
  then show "fst (login dbGet setItem username password st) = \<lparr>success = True, error = None\<rparr>"
    using sign_in_accepted [OF l] by simp
qed

lemma first_match_here:
  "credentials_equal r u p \<Longrightarrow> first_match ((key, r) # rest) u p key r"
  unfolding first_match_def by (intro exI [of _ "[]"] exI [of _ rest]) simp

lemma first_match_later:
  assumes "\<not> nullish r'" "\<not> credentials_equal r' u p" "first_match rest u p key r"
  shows "first_match ((k', r') # rest) u p key r"
proof -
  from assms(3) obtain pre post where "rest = pre @ (key, r) # post"
    "list_all (\<lambda>(k, r'). \<not> nullish r' \<and> \<not> credentials_equal r' u p) pre"
    "credentials_equal r u p"
    unfolding first_match_def by blast
  then show ?thesis using assms(1,2)
    unfolding first_match_def
    by (intro exI [of _ "(k', r') # pre"] exI [of _ post]) simp
qed

lemma scan_teachers_None:
  "scan_teachers rs u p = Inr None \<Longrightarrow> no_match rs u p"
  by (induction rs) (auto simp: no_match_def split: if_splits)

lemma scan_students_None:
  "scan_students rs u p = Inr None \<Longrightarrow> no_match rs u p"
  by (induction rs) (auto simp: no_match_def split: if_splits)

lemma scan_teachers_null:
  "no_match pre u p \<Longrightarrow> nullish r \<Longrightarrow> scan_teachers (pre @ (k, r) # post) u p = Inl TypeError"
  by (induction pre) (auto simp: no_match_def)

lemma scan_students_null:
  "no_match pre u p \<Longrightarrow> nullish r \<Longrightarrow> scan_students (pre @ (k, r) # post) u p = Inl TypeError"
  by (induction pre) (auto simp: no_match_def)

theorem login_priority_witness:
  "fst (login
     (\<lambda>path. if path = ''users/admin''
        then Inr (Obj [(''id'', Str ''admin''), (''username'', Str ''root''),
                       (''password'', Str ''pw''), (''name'', Str ''Head'')])
        else if path = ''teachers''
        then Inr (Obj [(''t1'', Obj [(''username'', Str ''root''), (''password'', Str ''pw''),
                                     (''name'', Str ''Namesake'')])])
        else Inr Null)
     (\<lambda>t. None) ''root'' ''pw'' (fresh_process None)) = \<lparr>success = True, error = None\<rparr>
   \<and> get_prop (user (snd (login
     (\<lambda>path. if path = ''users/admin''
        then Inr (Obj [(''id'', Str ''admin''), (''username'', Str ''root''),
                       (''password'', Str ''pw''), (''name'', Str ''Head'')])
        else if path = ''teachers''
        then Inr (Obj [(''t1'', Obj [(''username'', Str ''root''), (''password'', Str ''pw''),
                                     (''name'', Str ''Namesake'')])])
        else Inr Null)
     (\<lambda>t. None) ''root'' ''pw'' (fresh_process None)))) ''role'' = Str ''admin''
   \<and> get_prop (user (snd (login
     (\<lambda>path. if path = ''users/admin''
        then Inr (Obj [(''id'', Str ''admin''), (''username'', Str ''root''),
                       (''password'', Str ''pw''), (''name'', Str ''Head'')])
        else if path = ''teachers''
        then Inr (Obj [(''t1'', Obj [(''username'', Str ''amy''), (''password'', Str ''pw''),
                                     (''name'', Str ''Amy T'')])])
        else Inr (Obj [(''s1'', Obj [(''username'', Str ''amy''), (''password'', Str ''pw''),
                                     (''name'', Str ''Amy S'')])]))
     (\<lambda>t. None) ''amy'' ''pw'' (fresh_process None)))) ''role'' = Str ''teacher''
   \<and> get_prop (user (snd (login
     (\<lambda>path. if path = ''users/admin''
        then Inr (Obj [(''id'', Str ''admin''), (''username'', Str ''root''),
                       (''password'', Str ''pw''), (''name'', Str ''Head'')])
        else if path = ''teachers''
        then Inr (Obj [(''t1'', Obj [(''username'', Str ''amy''), (''password'', Str ''pw''),
                                     (''name'', Str ''Amy T'')])])
        else Inr (Obj [(''s1'', Obj [(''username'', Str ''bob''), (''password'', Str ''pw''),
                                     (''name'', Str ''Bob S'')])]))
     (\<lambda>t. None) ''bob'' ''pw'' (fresh_process None)))) ''role'' = Str ''student''"
proof -
  let ?admin = "Obj [(''id'', Str ''admin''), (''username'', Str ''root''),
                     (''password'', Str ''pw''), (''name'', Str ''Head'')]"
  let ?t_root = "Obj [(''username'', Str ''root''), (''password'', Str ''pw''),
                      (''name'', Str ''Namesake'')]"
  let ?t_amy = "Obj [(''username'', Str ''amy''), (''password'', Str ''pw''),
                     (''name'', Str ''Amy T'')]"
  let ?s_amy = "Obj [(''username'', Str ''amy''), (''password'', Str ''pw''),
                     (''name'', Str ''Amy S'')]"
  let ?s_bob = "Obj [(''username'', Str ''bob''), (''password'', Str ''pw''),
                     (''name'', Str ''Bob S'')]"
  let ?D1 = "\<lambda>path. if path = ''users/admin'' then Inr ?admin
        else if path = ''teachers'' then Inr (Obj [(''t1'', ?t_root)]) else Inr Null"
  let ?D2 = "\<lambda>path. if path = ''users/admin'' then Inr ?admin
        else if path = ''teachers'' then Inr (Obj [(''t1'', ?t_amy)])
        else Inr (Obj [(''s1'', ?s_amy)])"
  let ?D3 = "\<lambda>path. if path = ''users/admin'' then Inr ?admin
        else if path = ''teachers'' then Inr (Obj [(''t1'', ?t_amy)])
        else Inr (Obj [(''s1'', ?s_bob)])"
  have a: "credentials_equal ?admin ''root'' ''pw''"
    by (simp add: credentials_equal_def get_prop_def)
  have na: "\<not> (truthy ?admin \<and> credentials_equal ?admin ''amy'' ''pw'')"
    "\<not> (truthy ?admin \<and> credentials_equal ?admin ''bob'' ''pw'')"
    by (simp_all add: credentials_equal_def get_prop_def)
  have t: "first_match (records (Obj [(''t1'', ?t_amy)])) ''amy'' ''pw'' ''t1'' ?t_amy"
    unfolding records_def by (simp, rule first_match_here)
      (simp add: credentials_equal_def get_prop_def)
  have nt: "no_match (records (Obj [(''t1'', ?t_amy)])) ''bob'' ''pw''"
    by (simp add: no_match_def records_def credentials_equal_def get_prop_def)
  have s: "first_match (records (Obj [(''s1'', ?s_bob)])) ''bob'' ''pw'' ''s1'' ?s_bob"
    unfolding records_def by (simp, rule first_match_here)
      (simp add: credentials_equal_def get_prop_def)
  have 1: "fst (login ?D1 (\<lambda>t. None) ''root'' ''pw'' (fresh_process None)) = \<lparr>success = True, error = None\<rparr>
     \<and> get_prop (user (snd (login ?D1 (\<lambda>t. None) ''root'' ''pw'' (fresh_process None)))) ''role'' = Str ''admin''"
    using login_priority [of ?D1 ?admin "''root''" "''pw''" "\<lambda>t. None" "fresh_process None"] a by (simp add: accepts_def)
  have 2: "get_prop (user (snd (login ?D2 (\<lambda>t. None) ''amy'' ''pw'' (fresh_process None)))) ''role'' = Str ''teacher''"
    using login_priority [of ?D2 ?admin "''amy''" "''pw''" "\<lambda>t. None" "fresh_process None"
        "Obj [(''t1'', ?t_amy)]" "''t1''" ?t_amy] na(1) t by (simp add: accepts_def)
  have 3: "get_prop (user (snd (login ?D3 (\<lambda>t. None) ''bob'' ''pw'' (fresh_process None)))) ''role'' = Str ''student''"
    using login_priority [of ?D3 ?admin "''bob''" "''pw''" "\<lambda>t. None" "fresh_process None"
        "Obj [(''t1'', ?t_amy)]" _ _ "Obj [(''s1'', ?s_bob)]" "''s1''" ?s_bob] na(2) nt s by (simp add: accepts_def)
  show ?thesis using 1 2 3 by blast
qed

text \<open>
  C4.  The session installed by a match in each of the three collections: \<^verbatim>\<open>role\<close> is
  the collection's, \<^verbatim>\<open>id\<close> is the admin record's own \<^verbatim>\<open>id\<close> or the key of the
  teacher or student record, \<^verbatim>\<open>name\<close> is copied, and a student session copies
  \<^verbatim>\<open>classId\<close>, \<^verbatim>\<open>className\<close> and \<^verbatim>\<open>passwordChanged\<close> (\<^verbatim>\<open>false\<close> when the record
  has none).  The match is \<^verbatim>\<open>===\<close> on both strings; within a collection it is the first
  matching record in enumeration order.  When the storage takes it, the same value is
  written to the durable slot and the call returns success.
\<close>

theorem login_session_fields:
  "(dbGet ''users/admin'' = Inr adminData \<and> truthy adminData
      \<and> credentials_equal adminData username password
    \<longrightarrow> user (snd (login dbGet setItem username password st)) =
          Obj [(''id'', get_prop adminData ''id''),
               (''username'', Str username),
               (''name'', get_prop adminData ''name''),
               (''role'', Str ''admin'')]
      \<and> (accepts setItem (Obj [(''id'', get_prop adminData ''id''),
                              (''username'', Str username),
                              (''name'', get_prop adminData ''name''),
                              (''role'', Str ''admin'')])
         \<longrightarrow> login dbGet setItem username password st =
        (\<lparr>success = True, error = None\<rparr>,
         st\<lparr>user := Obj [(''id'', get_prop adminData ''id''),
                        (''username'', Str username),
                        (''name'', get_prop adminData ''name''),
                        (''role'', Str ''admin'')],
            crescentUser := Some (JSON_stringify
                  (Obj [(''id'', get_prop adminData ''id''),
                        (''username'', Str username),
                        (''name'', get_prop adminData ''name''),
                        (''role'', Str ''admin'')]))\<rparr>)))
 \<and> (dbGet ''users/admin'' = Inr adminData
      \<and> \<not> (truthy adminData \<and> credentials_equal adminData username password)
      \<and> dbGet ''teachers'' = Inr teachers
      \<and> first_match (records teachers) username password key teacher
    \<longrightarrow> user (snd (login dbGet setItem username password st)) =
          Obj [(''id'', Str key),
               (''username'', Str username),
               (''name'', get_prop teacher ''name''),
               (''role'', Str ''teacher'')]
      \<and> (accepts setItem (Obj [(''id'', Str key),
                              (''username'', Str username),
                              (''name'', get_prop teacher ''name''),
                              (''role'', Str ''teacher'')])
         \<longrightarrow> login dbGet setItem username password st =
        (\<lparr>success = True, error = None\<rparr>,
         st\<lparr>user := Obj [(''id'', Str key),
                        (''username'', Str username),
                        (''name'', get_prop teacher ''name''),
                        (''role'', Str ''teacher'')],
            crescentUser := Some (JSON_stringify
                  (Obj [(''id'', Str key),
                        (''username'', Str username),
                        (''name'', get_prop teacher ''name''),
                        (''role'', Str ''teacher'')]))\<rparr>)))
 \<and> (dbGet ''users/admin'' = Inr adminData
      \<and> \<not> (truthy adminData \<and> credentials_equal adminData username password)
      \<and> dbGet ''teachers'' = Inr teachers
      \<and> no_match (records teachers) username password
      \<and> dbGet ''students'' = Inr students
      \<and> first_match (records students) username password key' student
    \<longrightarrow> user (snd (login dbGet setItem username password st)) =
          Obj [(''id'', Str key'),
               (''username'', Str username),
               (''name'', get_prop student ''name''),
               (''role'', Str ''student''),
               (''classId'', get_prop student ''classId''),
               (''className'', get_prop student ''className''),
               (''passwordChanged'',
                  if truthy (get_prop student ''passwordChanged'')
                  then get_prop student ''passwordChanged'' else Bool False)]
      \<and> (accepts setItem (Obj [(''id'', Str key'),
                              (''username'', Str username),
                              (''name'', get_prop student ''name''),
                              (''role'', Str ''student''),
                              (''classId'', get_prop student ''classId''),
                              (''className'', get_prop student ''className''),
                              (''passwordChanged'',
                                 if truthy (get_prop student ''passwordChanged'')
                                 then get_prop student ''passwordChanged'' else Bool False)])
         \<longrightarrow> login dbGet setItem username password st =
        (\<lparr>success = True, error = None\<rparr>,
         st\<lparr>user := Obj [(''id'', Str key'),
                        (''username'', Str username),
                        (''name'', get_prop student ''name''),
                        (''role'', Str ''student''),
                        (''classId'', get_prop student ''classId''),
                        (''className'', get_prop student ''className''),
                        (''passwordChanged'',
                           if truthy (get_prop student ''passwordChanged'')
                           then get_prop student ''passwordChanged'' else Bool False)],
            crescentUser := Some (JSON_stringify
                  (Obj [(''id'', Str key'),
                        (''username'', Str username),
                        (''name'', get_prop student ''name''),
                        (''role'', Str ''student''),
                        (''classId'', get_prop student ''classId''),
                        (''className'', get_prop student ''className''),
                        (''passwordChanged'',
                           if truthy (get_prop student ''passwordChanged'')
                           then get_prop student ''passwordChanged'' else Bool False)]))\<rparr>)))"
proof (intro conjI impI; (elim conjE)?)
  let ?U = "Obj [(''id'', get_prop adminData ''id''), (''username'', Str username),
                 (''name'', get_prop adminData ''name''), (''role'', Str ''admin'')]"
  assume h: "dbGet ''users/admin'' = Inr adminData" "truthy adminData"
    "credentials_equal adminData username password"
  then have "login_try dbGet setItem username password st =
      sign_in setItem (admin_userData adminData) st"
    by (rule login_admin)
  moreover have "get_prop adminData ''username'' = Str username"
    using h(3) by (simp add: credentials_equal_def)
  ultimately have l: "login_try dbGet setItem username password st = sign_in setItem ?U st"
    by (simp add: admin_userData_def)
  show "user (snd (login dbGet setItem username password st)) = ?U"
    by (rule sign_in_user [OF l])
  assume "accepts setItem ?U"
  then show "login dbGet setItem username password st =
        (\<lparr>success = True, error = None\<rparr>,
         st\<lparr>user := ?U, crescentUser := Some (JSON_stringify ?U)\<rparr>)"
    by (rule sign_in_accepted [OF l])
next
  let ?U = "Obj [(''id'', Str key), (''username'', Str username),
                 (''name'', get_prop teacher ''name''), (''role'', Str ''teacher'')]"
  assume h: "dbGet ''users/admin'' = Inr adminData"
    "\<not> (truthy adminData \<and> credentials_equal adminData username password)"
    "dbGet ''teachers'' = Inr teachers"
    "first_match (records teachers) username password key teacher"
  then have "login_try dbGet setItem username password st =
      sign_in setItem (teacher_userData key teacher) st"
    by (rule login_teacher)
  moreover have "get_prop teacher ''username'' = Str username"
    using h(4) by (auto simp: first_match_def credentials_equal_def)
  ultimately have l: "login_try dbGet setItem username password st = sign_in setItem ?U st"
    by (simp add: teacher_userData_def)
  show "user (snd (login dbGet setItem username password st)) = ?U"
    by (rule sign_in_user [OF l])
  assume "accepts setItem ?U"
  then show "login dbGet setItem username password st =
        (\<lparr>success = True, error = None\<rparr>,
         st\<lparr>user := ?U, crescentUser := Some (JSON_stringify ?U)\<rparr>)"
    by (rule sign_in_accepted [OF l])
next
  let ?U = "Obj [(''id'', Str key'), (''username'', Str username),
                 (''name'', get_prop student ''name''), (''role'', Str ''student''),
                 (''classId'', get_prop student ''classId''),
                 (''className'', get_prop student ''className''),
                 (''passwordChanged'',
                    if truthy (get_prop student ''passwordChanged'')
                    then get_prop student ''passwordChanged'' else Bool False)]"
  assume h: "dbGet ''users/admin'' = Inr adminData"
    "\<not> (truthy adminData \<and> credentials_equal adminData username password)"
    "dbGet ''teachers'' = Inr teachers"
    "no_match (records teachers) username password"
    "dbGet ''students'' = Inr students"
    "first_match (records students) username password key' student"
  then have "login_try dbGet setItem username password st =
      sign_in setItem (student_userData key' student) st"
    by (rule login_student)
  moreover have "get_prop student ''username'' = Str username"
    using h(6) by (auto simp: first_match_def credentials_equal_def)
  ultimately have l: "login_try dbGet setItem username password st = sign_in setItem ?U st"
    by (simp add: student_userData_def)
  show "user (snd (login dbGet setItem username password st)) = ?U"
    by (rule sign_in_user [OF l])
  assume "accepts setItem ?U"
  then show "login dbGet setItem username password st =
        (\<lparr>success = True, error = None\<rparr>,
         st\<lparr>user := ?U, crescentUser := Some (JSON_stringify ?U)\<rparr>)"
    by (rule sign_in_accepted [OF l])
qed

theorem login_session_fields_witness:
  "user (snd (login
     (\<lambda>path. if path = ''users/admin''
        then Inr (Obj [(''id'', Str ''admin''), (''username'', Str ''root''),
                       (''password'', Str ''pw''), (''name'', Str ''Head'')])
        else if path = ''teachers''
        then Inr (Obj [(''t1'', Obj [(''username'', Str ''tom''), (''password'', Str ''pw''),
                                     (''name'', Str ''Tom''), (''subject'', Str ''Maths'')])])
        else Inr (Obj [(''s1'', Obj [(''username'', Str ''amy''), (''password'', Str ''pw''),
                                     (''name'', Str ''Amy''), (''classId'', Str ''c1''),
                                     (''className'', Str ''10-A'')])]))
     (\<lambda>t. None) ''root'' ''pw'' (fresh_process None))) =
     Obj [(''id'', Str ''admin''), (''username'', Str ''root''), (''name'', Str ''Head''),
          (''role'', Str ''admin'')]
   \<and> user (snd (login
     (\<lambda>path. if path = ''users/admin''
        then Inr (Obj [(''id'', Str ''admin''), (''username'', Str ''root''),
                       (''password'', Str ''pw''), (''name'', Str ''Head'')])
        else if path = ''teachers''
        then Inr (Obj [(''t1'', Obj [(''username'', Str ''tom''), (''password'', Str ''pw''),
                                     (''name'', Str ''Tom''), (''subject'', Str ''Maths'')])])
        else Inr (Obj [(''s1'', Obj [(''username'', Str ''amy''), (''password'', Str ''pw''),
                                     (''name'', Str ''Amy''), (''classId'', Str ''c1''),
                                     (''className'', Str ''10-A'')])]))
     (\<lambda>t. None) ''tom'' ''pw'' (fresh_process None))) =
     Obj [(''id'', Str ''t1''), (''username'', Str ''tom''), (''name'', Str ''Tom''),
          (''role'', Str ''teacher'')]
   \<and> user (snd (login
     (\<lambda>path. if path = ''users/admin''
        then Inr (Obj [(''id'', Str ''admin''), (''username'', Str ''root''),
                       (''password'', Str ''pw''), (''name'', Str ''Head'')])
        else if path = ''teachers''
        then Inr (Obj [(''t1'', Obj [(''username'', Str ''tom''), (''password'', Str ''pw''),
                                     (''name'', Str ''Tom''), (''subject'', Str ''Maths'')])])
        else Inr (Obj [(''s1'', Obj [(''username'', Str ''amy''), (''password'', Str ''pw''),
                                     (''name'', Str ''Amy''), (''classId'', Str ''c1''),
                                     (''className'', Str ''10-A'')])]))
     (\<lambda>t. None) ''amy'' ''pw'' (fresh_process None))) =
     Obj [(''id'', Str ''s1''), (''username'', Str ''amy''), (''name'', Str ''Amy''),
          (''role'', Str ''student''), (''classId'', Str ''c1''), (''className'', Str ''10-A''),
          (''passwordChanged'', Bool False)]"
proof -
  let ?admin = "Obj [(''id'', Str ''admin''), (''username'', Str ''root''),
                     (''password'', Str ''pw''), (''name'', Str ''Head'')]"
  let ?tom = "Obj [(''username'', Str ''tom''), (''password'', Str ''pw''),
                   (''name'', Str ''Tom''), (''subject'', Str ''Maths'')]"
  let ?amy = "Obj [(''username'', Str ''amy''), (''password'', Str ''pw''),
                   (''name'', Str ''Amy''), (''classId'', Str ''c1''),
                   (''className'', Str ''10-A'')]"
  let ?D = "\<lambda>path. if path = ''users/admin'' then Inr ?admin
        else if path = ''teachers'' then Inr (Obj [(''t1'', ?tom)])
        else Inr (Obj [(''s1'', ?amy)])"
  have a: "credentials_equal ?admin ''root'' ''pw''"
    by (simp add: credentials_equal_def get_prop_def)
  have na: "\<not> (truthy ?admin \<and> credentials_equal ?admin ''tom'' ''pw'')"
    "\<not> (truthy ?admin \<and> credentials_equal ?admin ''amy'' ''pw'')"
    by (simp_all add: credentials_equal_def get_prop_def)
  have t: "first_match (records (Obj [(''t1'', ?tom)])) ''tom'' ''pw'' ''t1'' ?tom"
    unfolding records_def by (simp, rule first_match_here)
      (simp add: credentials_equal_def get_prop_def)
  have nt: "no_match (records (Obj [(''t1'', ?tom)])) ''amy'' ''pw''"
    by (simp add: no_match_def records_def credentials_equal_def get_prop_def)
  have s: "first_match (records (Obj [(''s1'', ?amy)])) ''amy'' ''pw'' ''s1'' ?amy"
    unfolding records_def by (simp, rule first_match_here)
      (simp add: credentials_equal_def get_prop_def)
  have 1: "user (snd (login ?D (\<lambda>t. None) ''root'' ''pw'' (fresh_process None))) =
     Obj [(''id'', Str ''admin''), (''username'', Str ''root''), (''name'', Str ''Head''),
          (''role'', Str ''admin'')]"
    using login_session_fields [of ?D ?admin "''root''" "''pw''" "\<lambda>t. None" "fresh_process None"] a
    by (simp add: get_prop_def accepts_def)
  have 2: "user (snd (login ?D (\<lambda>t. None) ''tom'' ''pw'' (fresh_process None))) =
     Obj [(''id'', Str ''t1''), (''username'', Str ''tom''), (''name'', Str ''Tom''),
          (''role'', Str ''teacher'')]"
    using login_session_fields [of ?D ?admin "''tom''" "''pw''" "\<lambda>t. None" "fresh_process None"
        "Obj [(''t1'', ?tom)]" "''t1''" ?tom] na(1) t
    by (simp add: get_prop_def accepts_def)
  have 3: "user (snd (login ?D (\<lambda>t. None) ''amy'' ''pw'' (fresh_process None))) =
     Obj [(''id'', Str ''s1''), (''username'', Str ''amy''), (''name'', Str ''Amy''),
          (''role'', Str ''student''), (''classId'', Str ''c1''), (''className'', Str ''10-A''),
          (''passwordChanged'', Bool False)]"
    using login_session_fields [of ?D ?admin "''amy''" "''pw''" "\<lambda>t. None" "fresh_process None"
        "Obj [(''t1'', ?tom)]" _ _ "Obj [(''s1'', ?amy)]" "''s1''" ?amy] na(2) nt s
    by (simp add: get_prop_def accepts_def)
  show ?thesis using 1 2 3 by blast
qed

lemma scan_students_Some:
  "scan_students rs u p = Inr (Some ud) \<Longrightarrow>
   \<exists>key s. (key, s) \<in> set rs \<and> ud = student_userData key s"
  by (induction rs) (fastforce split: if_splits)+

lemma scan_teachers_Some_mem:
  "scan_teachers rs u p = Inr (Some ud) \<Longrightarrow>
   \<exists>key t. (key, t) \<in> set rs \<and> ud = teacher_userData key t"
  by (induction rs) (fastforce split: if_splits)+

text \<open>
  The three ways the body of the \<^verbatim>\<open>try\<close> ends before any write: it raises with the
  state untouched, it finds no match, or it reaches \<open>sign_in\<close> with the session data of
  a record of the store.
\<close>

lemma login_try_sources:
  "(\<exists>e. login_try dbGet setItem u p st = Inl (e, st))
   \<or> login_try dbGet setItem u p st =
        Inr (\<lparr>success = False, error = Some ''Invalid username or password''\<rparr>, st)
   \<or> (\<exists>ud. login_try dbGet setItem u p st = sign_in setItem ud st
        \<and> ((\<exists>a. dbGet ''users/admin'' = Inr a \<and> ud = admin_userData a)
          \<or> (\<exists>c k t. dbGet ''teachers'' = Inr c \<and> (k, t) \<in> set (records c)
                \<and> ud = teacher_userData k t)
          \<or> (\<exists>c k s. dbGet ''students'' = Inr c \<and> (k, s) \<in> set (records c)
                \<and> ud = student_userData k s)))"
proof (cases "dbGet ''users/admin''")
  case (Inl e)
  then show ?thesis by (simp add: login_try_def)
next
  case a: (Inr a)
  show ?thesis
  proof (cases "truthy a \<and> credentials_equal a u p")
    case True
    then have "login_try dbGet setItem u p st = sign_in setItem (admin_userData a) st"
      using a by (simp add: login_try_def)
    then show ?thesis using a by blast
  next
    case na: False
    show ?thesis
    proof (cases "dbGet ''teachers''")
      case (Inl e)
      then show ?thesis using a na by (auto simp: login_try_def)
    next
      case t: (Inr c)
      show ?thesis
      proof (cases "scan_teachers (records c) u p")
        case (Inl e)
        then show ?thesis using a na t
          by (auto simp: login_try_def scan_records_teachers)
      next
        case st: (Inr found)
        show ?thesis
        proof (cases found)
          case (Some ud)
          then have "login_try dbGet setItem u p st = sign_in setItem ud st"
            using a na t st by (auto simp: login_try_def scan_records_teachers)
          moreover obtain k t' where "(k, t') \<in> set (records c)" "ud = teacher_userData k t'"
            using scan_teachers_Some_mem st Some by blast
          ultimately show ?thesis using t by blast
        next
          case None
          show ?thesis
          proof (cases "dbGet ''students''")
            case (Inl e)
            then show ?thesis using a na t st None
              by (auto simp: login_try_def scan_records_teachers)
          next
            case s: (Inr c')
            show ?thesis
            proof (cases "scan_students (records c') u p")
              case (Inl e)
              then show ?thesis using a na t st None s
                by (auto simp: login_try_def scan_records_teachers scan_records_students)
            next
              case ss: (Inr found')
              show ?thesis
              proof (cases found')
                case None': None
                then show ?thesis using a na t st None s ss
                  by (auto simp: login_try_def scan_records_teachers scan_records_students)
              next
                case (Some ud)
                then have "login_try dbGet setItem u p st = sign_in setItem ud st"
                  using a na t st None s ss
                  by (auto simp: login_try_def scan_records_teachers scan_records_students)
                moreover obtain k s' where "(k, s') \<in> set (records c')"
                  "ud = student_userData k s'"
                  using scan_students_Some ss Some by blast
                ultimately show ?thesis using s by blast
              qed
            qed
          qed
        qed
      qed
    qed
  qed
qed

lemma login_try_shape:
  "(\<exists>e. login_try dbGet setItem u p st = Inl (e, st))
   \<or> (\<exists>ud. login_try dbGet setItem u p st = sign_in setItem ud st)
   \<or> login_try dbGet setItem u p st =
        Inr (\<lparr>success = False, error = Some ''Invalid username or password''\<rparr>, st)"
  using login_try_sources [of dbGet setItem u p st] by blast

lemma login_try_invalid_iff:
  "login_try dbGet setItem u p st =
        Inr (\<lparr>success = False, error = Some ''Invalid username or password''\<rparr>, st)
   \<longleftrightarrow> (\<exists>a t s. dbGet ''users/admin'' = Inr a
          \<and> \<not> (truthy a \<and> credentials_equal a u p)
          \<and> dbGet ''teachers'' = Inr t \<and> no_match (records t) u p
          \<and> dbGet ''students'' = Inr s \<and> no_match (records s) u p)"
  (is "?L \<longleftrightarrow> ?R")
proof
  assume ?L
  then show ?R
    unfolding login_try_def scan_records_teachers scan_records_students
    by (auto split: sum.splits option.splits if_splits simp: sign_in_def
        dest: scan_teachers_None scan_students_None)
next
  assume ?R
  then show ?L
    unfolding login_try_def scan_records_teachers scan_records_students
    by (auto simp: no_match_teachers no_match_students)
qed

text \<open>
  What \<^verbatim>\<open>login\<close> returns, for every store, storage and state.  It always returns a
  value, of one of three kinds.  With \<^verbatim>\<open>Invalid username or password\<close> the state is the
  one before the call, and this is the result exactly when the three reads succeed and no
  record has both credentials equal.  With \<^verbatim>\<open>Login failed. Please try again.\<close> the state
  is the one before the call when a read was rejected or a scan met a \<^verbatim>\<open>null\<close> record;
  when the storage refused the write, the session has been replaced and only the durable
  slot is as before.
\<close>

lemma login_outcomes:
  "(\<exists>ud. accepts setItem ud
        \<and> login dbGet setItem username password st =
            (\<lparr>success = True, error = None\<rparr>,
             st\<lparr>user := ud, crescentUser := Some (JSON_stringify ud)\<rparr>))
   \<or> login dbGet setItem username password st =
        (\<lparr>success = False, error = Some ''Invalid username or password''\<rparr>, st)
   \<or> login dbGet setItem username password st =
        (\<lparr>success = False, error = Some ''Login failed. Please try again.''\<rparr>, st)
   \<or> (\<exists>ud e. setItem (JSON_stringify ud) = Some e
        \<and> login dbGet setItem username password st =
            (\<lparr>success = False, error = Some ''Login failed. Please try again.''\<rparr>,
             st\<lparr>user := ud\<rparr>))"
proof -
  consider (raised) e where "login_try dbGet setItem username password st = Inl (e, st)"
    | (match) ud where "login_try dbGet setItem username password st = sign_in setItem ud st"
    | (none) "login_try dbGet setItem username password st =
        Inr (\<lparr>success = False, error = Some ''Invalid username or password''\<rparr>, st)"
    using login_try_shape [of dbGet setItem username password st] by blast
  then show ?thesis
  proof cases
    case raised
    then show ?thesis by (simp add: login_def)
  next
    case match
    show ?thesis
    proof (cases "setItem (JSON_stringify ud)")
      case None
      then have "accepts setItem ud" by (simp add: accepts_def)
      with sign_in_accepted [OF match] show ?thesis by blast
    next
      case (Some e)
      with sign_in_refused [OF match] show ?thesis by blast
    qed
  next
    case none
    then show ?thesis by (simp add: login_def)
  qed
qed

lemma login_invalid_iff:
  "fst (login dbGet setItem username password st) =
     \<lparr>success = False, error = Some ''Invalid username or password''\<rparr>
   \<longleftrightarrow> (\<exists>a t s. dbGet ''users/admin'' = Inr a
          \<and> \<not> (truthy a \<and> credentials_equal a username password)
          \<and> dbGet ''teachers'' = Inr t \<and> no_match (records t) username password
          \<and> dbGet ''students'' = Inr s \<and> no_match (records s) username password)"
  unfolding login_try_invalid_iff [of dbGet setItem username password st, symmetric]
  using login_try_shape [of dbGet setItem username password st]
  by (auto simp: login_def sign_in_def split: option.splits)

lemma login_read_rejected:
  "dbGet ''users/admin'' = Inl e
   \<or> (\<exists>a. dbGet ''users/admin'' = Inr a \<and> \<not> (truthy a \<and> credentials_equal a username password)
        \<and> (dbGet ''teachers'' = Inl e
           \<or> (\<exists>t. dbGet ''teachers'' = Inr t \<and> no_match (records t) username password
                \<and> dbGet ''students'' = Inl e)))
   \<Longrightarrow> login dbGet setItem username password st =
        (\<lparr>success = False, error = Some ''Login failed. Please try again.''\<rparr>, st)"
  unfolding login_def login_try_def scan_records_teachers
  by (auto simp: no_match_teachers)

lemma login_null_record:
  "dbGet ''users/admin'' = Inr a \<Longrightarrow> \<not> (truthy a \<and> credentials_equal a username password)
   \<Longrightarrow> dbGet ''teachers'' = Inr t
   \<Longrightarrow> (records t = pre @ (k, r) # post \<and> no_match pre username password \<and> nullish r)
      \<or> (no_match (records t) username password \<and> dbGet ''students'' = Inr s
          \<and> records s = pre @ (k, r) # post \<and> no_match pre username password \<and> nullish r)
   \<Longrightarrow> login dbGet setItem username password st =
        (\<lparr>success = False, error = Some ''Login failed. Please try again.''\<rparr>, st)"
  unfolding login_def login_try_def scan_records_teachers scan_records_students
  by (auto simp: no_match_teachers scan_teachers_null scan_students_null)

text \<open>
  C5.  The claim: a failed \<^verbatim>\<open>login\<close> writes nothing and leaves the prior session and the
  durable slot as they were.  A failing input: the admin record matches and the storage
  refuses the write (\<^verbatim>\<open>localStorage.setItem\<close> raises, as it does when the quota is
  reached).  \<^verbatim>\<open>setUser(userData)\<close> has run before the write, so \<^verbatim>\<open>login\<close> returns the
  failure \<^verbatim>\<open>Login failed. Please try again.\<close> with the teacher session that was active
  replaced by the admin one; the durable slot still holds the old text.  The sibling path
  into the same \<^verbatim>\<open>catch\<close>, a rejected read, returns that failure with the state as it
  was.
\<close>

theorem login_storage_fault:
  "login
     (\<lambda>path. if path = ''users/admin''
        then Inr (Obj [(''id'', Str ''admin''), (''username'', Str ''root''),
                       (''password'', Str ''pw''), (''name'', Str ''Head'')])
        else Inr Null)
     (\<lambda>t. Some QuotaExceededError) ''root'' ''pw''
     \<lparr>user = Obj [(''id'', Str ''t1''), (''role'', Str ''teacher'')], isLoading = False,
      crescentUser = Some ''saved''\<rparr> =
     (\<lparr>success = False, error = Some ''Login failed. Please try again.''\<rparr>,
      \<lparr>user = Obj [(''id'', Str ''admin''), (''username'', Str ''root''),
                   (''name'', Str ''Head''), (''role'', Str ''admin'')], isLoading = False,
       crescentUser = Some ''saved''\<rparr>)
   \<and> login (\<lambda>path. Inl DataAccessFault) (\<lambda>t. Some QuotaExceededError) ''root'' ''pw''
     \<lparr>user = Obj [(''id'', Str ''t1''), (''role'', Str ''teacher'')], isLoading = False,
      crescentUser = Some ''saved''\<rparr> =
     (\<lparr>success = False, error = Some ''Login failed. Please try again.''\<rparr>,
      \<lparr>user = Obj [(''id'', Str ''t1''), (''role'', Str ''teacher'')], isLoading = False,
       crescentUser = Some ''saved''\<rparr>)"
  by (simp add: login_def login_try_def sign_in_def admin_userData_def credentials_equal_def
      get_prop_def)

section \<open>Properties of updateUser and restoreSession\<close>

lemma map_of_obj_set: "map_of (obj_set k v ps) = (map_of ps)(k \<mapsto> v)"
  by (induction ps) (auto simp: fun_eq_iff)



lemma map_of_fold_obj_set:
  "distinct (map fst qs) \<Longrightarrow>
   map_of (fold (\<lambda>(k, x). obj_set k x) qs ps) = map_of ps ++ map_of qs"
proof (induction qs arbitrary: ps)
  case Nil
  then show ?case by simp
next
  case (Cons q qs)
  obtain k x where q: "q = (k, x)" by (cases q)
  have "k \<notin> dom (map_of qs)"
    using Cons.prems q by (auto simp: dom_map_of_conv_image_fst)
  then have swap: "(map_of ps)(k \<mapsto> x) ++ map_of qs = map_of ps ++ (map_of qs)(k \<mapsto> x)"
    by (auto simp: fun_eq_iff map_add_def split: option.splits)
  have "fold (\<lambda>(k, x). obj_set k x) (q # qs) ps = fold (\<lambda>(k, x). obj_set k x) qs (obj_set k x ps)"
    using q by simp
  also have "map_of \<dots> = map_of (obj_set k x ps) ++ map_of qs"
    using Cons.IH Cons.prems by simp
  also have "\<dots> = (map_of ps)(k \<mapsto> x) ++ map_of qs"
    by (simp only: map_of_obj_set)
  also have "\<dots> = map_of ps ++ (map_of qs)(k \<mapsto> x)"
    by (rule swap)
  also have "\<dots> = map_of ps ++ map_of (q # qs)"
    using q by simp
  finally show ?case .
qed


lemma obj_set_fresh: "k \<notin> fst ` set ps \<Longrightarrow> obj_set k v ps = ps @ [(k, v)]"
  by (induction ps) auto

lemma fold_obj_set_distinct:
  "distinct (map fst (acc @ ps)) \<Longrightarrow> fold (\<lambda>(k, x). obj_set k x) ps acc = acc @ ps"
proof (induction ps arbitrary: acc)
  case Nil
  then show ?case by simp
next
  case (Cons q ps)
  obtain k x where q: "q = (k, x)" by (cases q)
  have fresh: "k \<notin> fst ` set acc" using Cons.prems q by auto
  have "distinct (map fst ((acc @ [(k, x)]) @ ps))" using Cons.prems q by simp
  from Cons.IH [OF this] show ?case using q fresh by (simp add: obj_set_fresh)
qed

lemma spread_object:
  "distinct (map fst ps) \<Longrightarrow> spread_into [] (Obj ps) = ps"
  using fold_obj_set_distinct [of "[]" ps] by (simp add: spread_into_def)

lemma get_prop_spread:
  assumes "distinct (map fst ps)" "distinct (map fst ds)"
  shows "get_prop (Obj (spread_into (spread_into [] (Obj ps)) (Obj ds))) k =
         (if k \<in> fst ` set ds then get_prop (Obj ds) k else get_prop (Obj ps) k)"
proof -
  have m: "map_of (spread_into (spread_into [] (Obj ps)) (Obj ds)) k = (map_of ps ++ map_of ds) k"
    using assms by (simp add: spread_object) (simp add: spread_into_def map_of_fold_obj_set)
  show ?thesis
  proof (cases "map_of ds k")
    case None
    then have "k \<notin> fst ` set ds" by (simp add: map_of_eq_None_iff)
    then show ?thesis using None m by (simp add: get_prop_def map_add_def)
  next
    case (Some y)
    then have "(k, y) \<in> set ds" by (rule map_of_SomeD)
    then have "k \<in> fst ` set ds" by (rule image_eqI [rotated]) simp
    then show ?thesis using Some m by (simp add: get_prop_def map_add_def)
  qed
qed

lemma updateUser_user:
  "truthy (user st) \<Longrightarrow>
   user (snd (updateUser setItem data st)) = Obj (spread_into (spread_into [] (user st)) data)
   \<and> isLoading (snd (updateUser setItem data st)) = isLoading st"
  by (simp add: updateUser_def Let_def split: option.splits)


text \<open>
  There is no \<^verbatim>\<open>try\<close> around the write of \<^verbatim>\<open>updateUser\<close>: when the storage refuses,
  the error leaves the call, with the merged session installed and the slot as it was.
\<close>

lemma updateUser_refused:
  "truthy (user st) \<Longrightarrow>
   setItem (JSON_stringify (Obj (spread_into (spread_into [] (user st)) data))) = Some e \<Longrightarrow>
   updateUser setItem data st =
     (Some e, st\<lparr>user := Obj (spread_into (spread_into [] (user st)) data)\<rparr>)"
  by (simp add: updateUser_def Let_def)



lemma login_state_cases:
  "user (snd (login dbGet setItem u p st)) = user st
   \<or> (\<exists>a. user (snd (login dbGet setItem u p st)) = admin_userData a)
   \<or> (\<exists>key t. user (snd (login dbGet setItem u p st)) = teacher_userData key t)
   \<or> (\<exists>students key s. dbGet ''students'' = Inr students \<and> (key, s) \<in> set (records students)
        \<and> user (snd (login dbGet setItem u p st)) = student_userData key s)"
  using login_try_sources [of dbGet setItem u p st]
proof (elim disjE exE conjE)
  fix e assume "login_try dbGet setItem u p st = Inl (e, st)"
  then show ?thesis by (simp add: login_def)
next
  assume "login_try dbGet setItem u p st =
        Inr (\<lparr>success = False, error = Some ''Invalid username or password''\<rparr>, st)"
  then show ?thesis by (simp add: login_def)
next
  fix ud a
  assume "login_try dbGet setItem u p st = sign_in setItem ud st" "ud = admin_userData a"
  then show ?thesis using sign_in_user by blast
next
  fix ud c k t
  assume "login_try dbGet setItem u p st = sign_in setItem ud st" "ud = teacher_userData k t"
  then show ?thesis using sign_in_user by blast
next
  fix ud c k s
  assume "login_try dbGet setItem u p st = sign_in setItem ud st" "ud = student_userData k s"
    "dbGet ''students'' = Inr c" "(k, s) \<in> set (records c)"
  then show ?thesis using sign_in_user by blast
qed

lemma admin_userData_invariant: "session_invariant (admin_userData a)"
  by (simp add: session_invariant_def admin_userData_def populated_def get_prop_def)

lemma teacher_userData_invariant: "session_invariant (teacher_userData key t)"
  by (simp add: session_invariant_def teacher_userData_def populated_def get_prop_def)

lemma student_userData_invariant:
  "populated s ''classId'' \<Longrightarrow> populated s ''className'' \<Longrightarrow>
   session_invariant (student_userData key s)"
  by (simp add: session_invariant_def student_userData_def populated_def)
     (simp add: get_prop_def)

lemma session_invariant_cong:
  assumes "get_prop t ''role'' = get_prop s ''role''"
    "get_prop t ''classId'' = get_prop s ''classId''"
    "get_prop t ''className'' = get_prop s ''className''"
    "get_prop t ''assignedClassIds'' = get_prop s ''assignedClassIds''"
  shows "session_invariant t = session_invariant s"
  using assms by (simp add: session_invariant_def populated_def)

text \<open>
  C2, amended.  No operation checks the invariant.  \<^verbatim>\<open>login\<close> preserves it when every
  student record of the store carries \<^verbatim>\<open>classId\<close> and \<^verbatim>\<open>className\<close> (its admin and
  teacher sessions never carry a class field or \<^verbatim>\<open>assignedClassIds\<close>); \<^verbatim>\<open>updateUser\<close>
  preserves it when the partial record leaves \<^verbatim>\<open>role\<close>, \<^verbatim>\<open>classId\<close>,
  \<^verbatim>\<open>className\<close> and \<^verbatim>\<open>assignedClassIds\<close> alone; \<^verbatim>\<open>restoreSession\<close> keeps the
  session or installs exactly what the text of the slot parses to.
\<close>

theorem session_invariant_preserved:
  "(session_invariant (user st)
      \<and> (\<forall>students. dbGet ''students'' = Inr students \<longrightarrow>
            list_all (\<lambda>(k, r). populated r ''classId'' \<and> populated r ''className'')
              (records students))
    \<longrightarrow> session_invariant (user (snd (login dbGet setItem username password st))))
 \<and> (session_invariant (user st)
      \<and> user st = Obj ps \<and> distinct (map fst ps) \<and> data = Obj ds \<and> distinct (map fst ds)
      \<and> ''role'' \<notin> fst ` set ds \<and> ''classId'' \<notin> fst ` set ds
      \<and> ''className'' \<notin> fst ` set ds \<and> ''assignedClassIds'' \<notin> fst ` set ds
    \<longrightarrow> session_invariant (user (snd (updateUser setItem data st))))
 \<and> (restoreSession st = Inr st'
    \<longrightarrow> user st' = user st
      \<or> (\<exists>s. crescentUser st = Some s \<and> JSON_parse s = Inr (user st')))"
proof (intro conjI impI)
  assume h: "session_invariant (user st)
      \<and> (\<forall>students. dbGet ''students'' = Inr students \<longrightarrow>
            list_all (\<lambda>(k, r). populated r ''classId'' \<and> populated r ''className'')
              (records students))"
  from login_state_cases [of dbGet setItem username password st]
  show "session_invariant (user (snd (login dbGet setItem username password st)))"
  proof (elim disjE exE conjE)
    assume "user (snd (login dbGet setItem username password st)) = user st"
    then show ?thesis using h by simp
  next
    fix a assume "user (snd (login dbGet setItem username password st)) = admin_userData a"
    then show ?thesis by (simp add: admin_userData_invariant)
  next
    fix key t
    assume "user (snd (login dbGet setItem username password st)) = teacher_userData key t"
    then show ?thesis by (simp add: teacher_userData_invariant)
  next
    fix students key s
    assume s: "dbGet ''students'' = Inr students" "(key, s) \<in> set (records students)"
      and l: "user (snd (login dbGet setItem username password st)) = student_userData key s"
    from h s have "populated s ''classId'' \<and> populated s ''className''"
      by (auto simp: list_all_iff)
    then show ?thesis using l by (simp add: student_userData_invariant)
  qed
next
  assume h: "session_invariant (user st)
      \<and> user st = Obj ps \<and> distinct (map fst ps) \<and> data = Obj ds \<and> distinct (map fst ds)
      \<and> ''role'' \<notin> fst ` set ds \<and> ''classId'' \<notin> fst ` set ds
      \<and> ''className'' \<notin> fst ` set ds \<and> ''assignedClassIds'' \<notin> fst ` set ds"
  then have "truthy (user st)" by simp
  from updateUser_user [OF this, of setItem data] h
  have u: "user (snd (updateUser setItem data st)) =
           Obj (spread_into (spread_into [] (Obj ps)) (Obj ds))"
    by simp
  have g: "\<And>k. get_prop (Obj (spread_into (spread_into [] (Obj ps)) (Obj ds))) k =
         (if k \<in> fst ` set ds then get_prop (Obj ds) k else get_prop (Obj ps) k)"
    using h by (intro get_prop_spread) simp_all
  have "session_invariant (Obj (spread_into (spread_into [] (Obj ps)) (Obj ds))) =
        session_invariant (Obj ps)"
    using h by (intro session_invariant_cong) (simp_all add: g)
  moreover have "session_invariant (Obj ps)"
    using h by auto
  ultimately show "session_invariant (user (snd (updateUser setItem data st)))"
    unfolding u by simp
next
  assume "restoreSession st = Inr st'"
  then show "user st' = user st
      \<or> (\<exists>s. crescentUser st = Some s \<and> JSON_parse s = Inr (user st'))"
    by (auto simp: restoreSession_def split: option.splits if_splits sum.splits)
qed

text \<open>
  C2 as stated fails: \<^verbatim>\<open>updateUser({classId: 'c1'})\<close> on an admin session gives an admin
  session with a \<^verbatim>\<open>classId\<close>; a student record without class fields logs in to a
  student session without them; and a slot holding an admin session with a \<^verbatim>\<open>classId\<close>
  is restored as it is.
\<close>

theorem session_invariant_counterexample:
  "session_invariant
     (Obj [(''id'', Str ''admin''), (''username'', Str ''root''), (''name'', Str ''Head''),
           (''role'', Str ''admin'')])
   \<and> \<not> session_invariant (user (snd (updateUser (\<lambda>t. None) (Obj [(''classId'', Str ''c1'')])
       \<lparr>user = Obj [(''id'', Str ''admin''), (''username'', Str ''root''),
                    (''name'', Str ''Head''), (''role'', Str ''admin'')],
        isLoading = False, crescentUser = None\<rparr>)))
   \<and> \<not> session_invariant (user (snd (login
         (\<lambda>path. if path = ''students''
            then Inr (Obj [(''s1'', Obj [(''username'', Str ''amy''), (''password'', Str ''pw''),
                                         (''name'', Str ''Amy'')])])
            else Inr Null)
         (\<lambda>t. None) ''amy'' ''pw'' (fresh_process None))))
   \<and> restoreSession (fresh_process (Some ''{\"role\":\"admin\",\"classId\":\"c1\"}'')) =
       Inr \<lparr>user = Obj [(''role'', Str ''admin''), (''classId'', Str ''c1'')],
            isLoading = False,
            crescentUser = Some ''{\"role\":\"admin\",\"classId\":\"c1\"}''\<rparr>
   \<and> \<not> session_invariant (Obj [(''role'', Str ''admin''), (''classId'', Str ''c1'')])"
  by code_simp

theorem session_invariant_preserved_witness:
  "session_invariant (user (snd (login
         (\<lambda>path. if path = ''students''
            then Inr (Obj [(''s1'', Obj [(''username'', Str ''amy''), (''password'', Str ''pw''),
                                         (''name'', Str ''Amy''), (''classId'', Str ''c1''),
                                         (''className'', Str ''10-A'')])])
            else Inr Null)
         (\<lambda>t. None) ''amy'' ''pw'' (fresh_process None))))
   \<and> session_invariant (user (snd (updateUser (\<lambda>t. None)
       (Obj [(''passwordChanged'', Bool True)])
       \<lparr>user = Obj [(''id'', Str ''s1''), (''role'', Str ''student''), (''classId'', Str ''c1''),
                    (''className'', Str ''10-A''), (''passwordChanged'', Bool False)],
        isLoading = False, crescentUser = None\<rparr>)))"
proof -
  let ?D = "\<lambda>path. if path = ''students''
            then Inr (Obj [(''s1'', Obj [(''username'', Str ''amy''), (''password'', Str ''pw''),
                                         (''name'', Str ''Amy''), (''classId'', Str ''c1''),
                                         (''className'', Str ''10-A'')])])
            else Inr Null"
  let ?ps = "[(''id'', Str ''s1''), (''role'', Str ''student''), (''classId'', Str ''c1''),
              (''className'', Str ''10-A''), (''passwordChanged'', Bool False)]"
  let ?S = "\<lparr>user = Obj ?ps, isLoading = False, crescentUser = None\<rparr>"
  have h1: "session_invariant (user (fresh_process None))"
    by (simp add: fresh_process_def session_invariant_def get_prop_def)
  have h2: "\<forall>students. ?D ''students'' = Inr students \<longrightarrow>
            list_all (\<lambda>(k, r). populated r ''classId'' \<and> populated r ''className'')
              (records students)"
    by (simp add: populated_def get_prop_def records_def)
  from session_invariant_preserved [of "fresh_process None" ?D "\<lambda>t. None" "''amy''" "''pw''"]
    h1 h2
  have 1: "session_invariant (user (snd (login ?D (\<lambda>t. None) ''amy'' ''pw'' (fresh_process None))))"
    by blast
  have h3: "session_invariant (user ?S)"
    by (simp add: session_invariant_def populated_def get_prop_def)
  have h4: "user ?S = Obj ?ps \<and> distinct (map fst ?ps)
      \<and> Obj [(''passwordChanged'', Bool True)] = Obj [(''passwordChanged'', Bool True)]
      \<and> distinct (map fst [(''passwordChanged'', Bool True)])
      \<and> ''role'' \<notin> fst ` set [(''passwordChanged'', Bool True)]
      \<and> ''classId'' \<notin> fst ` set [(''passwordChanged'', Bool True)]
      \<and> ''className'' \<notin> fst ` set [(''passwordChanged'', Bool True)]
      \<and> ''assignedClassIds'' \<notin> fst ` set [(''passwordChanged'', Bool True)]"
    by simp
  from session_invariant_preserved [of ?S _ "\<lambda>t. None" _ _ ?ps
        "Obj [(''passwordChanged'', Bool True)]" "[(''passwordChanged'', Bool True)]"] h3 h4
  have 2: "session_invariant (user (snd (updateUser (\<lambda>t. None)
      (Obj [(''passwordChanged'', Bool True)]) ?S)))"
    by blast
  show ?thesis using 1 2 by blast
qed

text \<open>
  C1, amended.  With the slot absent or empty \<^verbatim>\<open>restoreSession\<close> leaves the session as
  it is (empty in a fresh process), clears the loading flag and raises nothing.  A non-empty
  slot that \<^verbatim>\<open>JSON.parse\<close> rejects makes the effect raise that error, before the loading
  flag is cleared; a non-empty slot that parses is installed as the session, whatever the
  value is.
\<close>

theorem restoreSession_cases:
  "(crescentUser st = None \<or> crescentUser st = Some []
    \<longrightarrow> restoreSession st = Inr (st\<lparr>isLoading := False\<rparr>))
 \<and> (crescentUser st = Some s \<and> s \<noteq> [] \<and> JSON_parse s = Inl e
    \<longrightarrow> restoreSession st = Inl e)
 \<and> (crescentUser st = Some s \<and> s \<noteq> [] \<and> JSON_parse s = Inr v
    \<longrightarrow> restoreSession st = Inr (st\<lparr>user := v, isLoading := False\<rparr>))"
  by (auto simp: restoreSession_def)

text \<open>
  C1 as stated fails: text that is not JSON makes \<^verbatim>\<open>restoreSession\<close> raise a
  SyntaxError, and JSON that is no session (\<^verbatim>\<open>42\<close>, \<^verbatim>\<open>{}\<close>) is installed as the
  session.
\<close>

theorem restoreSession_counterexample:
  "restoreSession (fresh_process (Some ''{'')) = Inl SyntaxError
   \<and> restoreSession (fresh_process (Some ''not json'')) = Inl SyntaxError
   \<and> restoreSession (fresh_process (Some ''{\"id\":\"s1\"'')) = Inl SyntaxError
   \<and> restoreSession (fresh_process (Some ''42'')) =
       Inr \<lparr>user = Num 42, isLoading = False, crescentUser = Some ''42''\<rparr>
   \<and> restoreSession (fresh_process (Some ''{}'')) =
       Inr \<lparr>user = Obj [], isLoading = False, crescentUser = Some ''{}''\<rparr>"
  by code_simp

theorem restoreSession_cases_witness:
  "restoreSession (fresh_process None) =
     Inr \<lparr>user = Null, isLoading = False, crescentUser = None\<rparr>
   \<and> restoreSession (fresh_process (Some [])) =
     Inr \<lparr>user = Null, isLoading = False, crescentUser = Some []\<rparr>
   \<and> restoreSession (fresh_process (Some ''{'')) = Inl SyntaxError
   \<and> restoreSession (fresh_process (Some ''{\"id\":\"t1\",\"role\":\"teacher\"}'')) =
     Inr \<lparr>user = Obj [(''id'', Str ''t1''), (''role'', Str ''teacher'')], isLoading = False,
          crescentUser = Some ''{\"id\":\"t1\",\"role\":\"teacher\"}''\<rparr>"
proof -
  have p1: "JSON_parse ''{'' = Inl SyntaxError" by code_simp
  have p2: "JSON_parse ''{\"id\":\"t1\",\"role\":\"teacher\"}'' =
            Inr (Obj [(''id'', Str ''t1''), (''role'', Str ''teacher'')])" by code_simp
  have 1: "restoreSession (fresh_process None) =
     Inr \<lparr>user = Null, isLoading = False, crescentUser = None\<rparr>"
    using restoreSession_cases [of "fresh_process None"] by (simp add: fresh_process_def)
  have 2: "restoreSession (fresh_process (Some [])) =
     Inr \<lparr>user = Null, isLoading = False, crescentUser = Some []\<rparr>"
    using restoreSession_cases [of "fresh_process (Some [])"] by (simp add: fresh_process_def)
  have 3: "restoreSession (fresh_process (Some ''{'')) = Inl SyntaxError"
    using restoreSession_cases [of "fresh_process (Some ''{'')" "''{''" SyntaxError] p1
    by (simp add: fresh_process_def)
  have 4: "restoreSession (fresh_process (Some ''{\"id\":\"t1\",\"role\":\"teacher\"}'')) =
     Inr \<lparr>user = Obj [(''id'', Str ''t1''), (''role'', Str ''teacher'')], isLoading = False,
          crescentUser = Some ''{\"id\":\"t1\",\"role\":\"teacher\"}''\<rparr>"
    using restoreSession_cases [of "fresh_process (Some ''{\"id\":\"t1\",\"role\":\"teacher\"}'')"
        "''{\"id\":\"t1\",\"role\":\"teacher\"}''" _
        "Obj [(''id'', Str ''t1''), (''role'', Str ''teacher'')]"] p2
    by (simp add: fresh_process_def)
  show ?thesis using 1 2 3 4 by blast
qed

section \<open>JSON.parse inverts JSON.stringify\<close>

lemma hex_value_hex_digit: "d < 16 \<Longrightarrow> hex_value (hex_digit d) = Some d"
  by (auto simp: hex_value_def Let_def)

lemma hex4_control:
  "n < 32 \<Longrightarrow> hex4 (CHR ''0'') (CHR ''0'') (hex_digit (n div 16)) (hex_digit (n mod 16)) = Some n"
proof -
  assume n: "n < 32"
  have z: "hex_value (CHR ''0'') = Some 0" by (simp add: hex_value_def)
  have a: "hex_value (hex_digit (n div 16)) = Some (n div 16)"
    using n by (intro hex_value_hex_digit) simp
  have b: "hex_value (hex_digit (n mod 16)) = Some (n mod 16)"
    by (intro hex_value_hex_digit) simp
  show ?thesis unfolding hex4_def z a b by simp
qed

lemma string_chars_escape:
  "string_chars (escape_char c @ cs) = cons_char c (string_chars cs)"
proof -
  consider (quote) "c = CHR 0x22" | (bs) "c = CHR 0x5C" | (b) "c = CHR 0x08" | (f) "c = CHR 0x0C"
    | (n) "c = CHR 0x0A" | (r) "c = CHR 0x0D" | (t) "c = CHR 0x09"
    | (ctl) "c \<noteq> CHR 0x22" "c \<noteq> CHR 0x5C" "c \<noteq> CHR 0x08" "c \<noteq> CHR 0x0C" "c \<noteq> CHR 0x0A"
        "c \<noteq> CHR 0x0D" "c \<noteq> CHR 0x09" "(of_char c :: nat) < 32"
    | (plain) "c \<noteq> CHR 0x22" "c \<noteq> CHR 0x5C" "\<not> (of_char c :: nat) < 32"
    by (cases "(of_char c :: nat) < 32") auto
  then show ?thesis
  proof cases
    case ctl
    have "hex4 (CHR ''0'') (CHR ''0'') (hex_digit (of_char c div 16)) (hex_digit (of_char c mod 16))
          = Some (of_char c)"
      using ctl(8) by (rule hex4_control)
    then show ?thesis
      using ctl by (simp add: escape_char_def)
  next
    case plain
    then show ?thesis by (simp add: escape_char_def unescape_def)
  qed (simp_all add: escape_char_def unescape_def)
qed

lemma string_chars_body:
  "string_chars (concat (map escape_char s) @ CHR 0x22 # rest) = Some (s, rest)"
  by (induction s) (simp_all add: string_chars_escape cons_char_def)

lemma quote_append: "quote s @ rest = CHR 0x22 # concat (map escape_char s) @ CHR 0x22 # rest"
  by (simp add: quote_def)

lemma digit_char_props:
  "d < 10 \<Longrightarrow> is_digit (digit_char d) \<and> (of_char (digit_char d) :: nat) - 48 = d"
  by (simp add: is_digit_def)

lemma string_of_nat_digits: "list_all is_digit (string_of_nat n)"
proof (induction n rule: string_of_nat.induct)
  case (1 n)
  show ?case
  proof (cases "n < 10")
    case True
    then show ?thesis by (subst string_of_nat.simps) (simp add: is_digit_def)
  next
    case False
    have "n mod 10 < 10" by simp
    then have "is_digit (digit_char (n mod 10))" using digit_char_props by blast
    then show ?thesis using False 1 by (subst string_of_nat.simps) simp
  qed
qed

lemma string_of_nat_nonempty: "string_of_nat n \<noteq> []"
  by (subst string_of_nat.simps) simp

lemma nat_of_digits_snoc:
  "nat_of_digits (ds @ [c]) = 10 * nat_of_digits ds + (of_char c - 48)"
  by (simp add: nat_of_digits_def)

lemma nat_of_digits_string_of_nat: "nat_of_digits (string_of_nat n) = n"
proof (induction n rule: string_of_nat.induct)
  case (1 n)
  show ?case
  proof (cases "n < 10")
    case True
    then show ?thesis
      by (subst string_of_nat.simps) (simp add: nat_of_digits_def)
  next
    case False
    have "n mod 10 < 10" by simp
    then have d: "(of_char (digit_char (n mod 10)) :: nat) - 48 = n mod 10"
      using digit_char_props by blast
    have "nat_of_digits (string_of_nat n) =
          nat_of_digits (string_of_nat (n div 10) @ [digit_char (n mod 10)])"
      using False by (subst string_of_nat.simps) simp
    also have "\<dots> = 10 * (n div 10) + n mod 10"
      unfolding nat_of_digits_snoc d using 1 False by simp
    finally show ?thesis by simp
  qed
qed

lemma hd_string_of_nat: "0 < n \<Longrightarrow> hd (string_of_nat n) \<noteq> CHR ''0''"
proof (induction n rule: string_of_nat.induct)
  case (1 n)
  show ?case
  proof (cases "n < 10")
    case True
    then have "string_of_nat n = [digit_char n]" by (subst string_of_nat.simps) simp
    moreover have "digit_char n \<noteq> CHR ''0''"
    proof
      assume "digit_char n = CHR ''0''"
      then have "(of_char (digit_char n) :: nat) - 48 = of_char (CHR ''0'') - 48" by simp
      then show False using digit_char_props [OF True] 1(2) by simp
    qed
    ultimately show ?thesis by simp
  next
    case False
    then have "string_of_nat n = string_of_nat (n div 10) @ [digit_char (n mod 10)]"
      by (subst string_of_nat.simps) simp
    then have "hd (string_of_nat n) = hd (string_of_nat (n div 10))"
      by (simp add: string_of_nat_nonempty)
    moreover have "0 < n div 10" using False by simp
    ultimately show ?thesis using 1(1) False by simp
  qed
qed

lemma takeWhile_digits:
  "list_all is_digit ds \<Longrightarrow> follow rest \<Longrightarrow>
   takeWhile is_digit (ds @ rest) = ds \<and> dropWhile is_digit (ds @ rest) = rest"
  by (induction ds) (auto simp: follow_def takeWhile_eq_Nil_iff dropWhile_eq_self_iff)

lemma number_literal_nat:
  assumes "follow rest"
  shows "number_literal (string_of_nat n @ rest) = Some (Num (int n), rest)"
proof (cases "n = 0")
  case True
  have "char_of (48 :: nat) = CHR ''0''" by code_simp
  then have "string_of_nat 0 = ''0''" by (subst string_of_nat.simps) simp
  then show ?thesis using True by (simp add: number_literal_def is_digit_def)
next
  case False
  let ?ds = "string_of_nat n"
  have ne: "?ds \<noteq> []" by (rule string_of_nat_nonempty)
  have dig: "list_all is_digit ?ds" by (rule string_of_nat_digits)
  have hd0: "hd ?ds \<noteq> CHR ''0''" using False by (intro hd_string_of_nat) simp
  have hdd: "is_digit (hd ?ds)" using ne dig by (cases ?ds) auto
  have nm: "hd ?ds \<noteq> CHR ''-''" using hdd by (auto simp: is_digit_def)
  have tw: "takeWhile is_digit (?ds @ rest) = ?ds" "dropWhile is_digit (?ds @ rest) = rest"
    using takeWhile_digits [OF dig assms] by simp_all
  have hdapp: "hd (?ds @ rest) = hd ?ds" using ne by simp
  show ?thesis
    unfolding number_literal_def Let_def
    using ne hd0 hdd nm
    by (simp add: hdapp tw nat_of_digits_string_of_nat)
qed

lemma number_literal_int:
  assumes "follow rest"
  shows "number_literal (string_of_int i @ rest) = Some (Num i, rest)"
proof (cases "i < 0")
  case False
  then show ?thesis
    using number_literal_nat [OF assms, of "nat i"] by (simp add: string_of_int_def)
next
  case True
  let ?n = "nat (- i)"
  let ?ds = "string_of_nat ?n"
  have pos: "0 < ?n" using True by simp
  have ne: "?ds \<noteq> []" by (rule string_of_nat_nonempty)
  have dig: "list_all is_digit ?ds" by (rule string_of_nat_digits)
  have hd0: "hd ?ds \<noteq> CHR ''0''" using pos by (rule hd_string_of_nat)
  have hdd: "is_digit (hd ?ds)" using ne dig by (cases ?ds) auto
  have tw: "takeWhile is_digit (?ds @ rest) = ?ds" "dropWhile is_digit (?ds @ rest) = rest"
    using takeWhile_digits [OF dig assms] by simp_all
  have hdapp: "hd (?ds @ rest) = hd ?ds" using ne by simp
  have "string_of_int i @ rest = CHR ''-'' # ?ds @ rest"
    using True by (simp add: string_of_int_def)
  then show ?thesis
    unfolding number_literal_def Let_def
    using ne hd0 hdd True
    by (simp add: hdapp tw nat_of_digits_string_of_nat)
qed

lemma join_comma_Cons:
  "join_comma (x # xs) = x @ (if xs = [] then [] else CHR '','' # join_comma xs)"
  by (cases xs) simp_all

lemma string_of_int_start:
  "\<exists>c cs. string_of_int i = c # cs \<and> (is_digit c \<or> c = CHR ''-'')"
proof (cases "i < 0")
  case True
  then show ?thesis by (simp add: string_of_int_def)
next
  case False
  let ?ds = "string_of_nat (nat i)"
  have "?ds \<noteq> []" by (rule string_of_nat_nonempty)
  then obtain c cs where c: "?ds = c # cs" by (cases ?ds) auto
  moreover have "is_digit c" using string_of_nat_digits [of "nat i"] c by simp
  ultimately show ?thesis using False by (simp add: string_of_int_def)
qed

lemma number_start_facts:
  assumes "is_digit c \<or> c = CHR ''-''"
  shows "\<not> is_ws c" "c \<noteq> CHR ''{''" "c \<noteq> CHR ''[''" "c \<noteq> CHR '']''" "c \<noteq> CHR 0x22"
    "CHR ''t'' \<noteq> c" "CHR ''f'' \<noteq> c" "CHR ''n'' \<noteq> c"
proof -
  from assms have "(of_char c :: nat) \<in> {45} \<union> {48..57}"
    by (auto simp: is_digit_def)
  then have r: "(of_char c :: nat) \<noteq> 32" "(of_char c :: nat) \<noteq> 9" "(of_char c :: nat) \<noteq> 10"
    "(of_char c :: nat) \<noteq> 13" "(of_char c :: nat) \<noteq> 123" "(of_char c :: nat) \<noteq> 91"
    "(of_char c :: nat) \<noteq> 93" "(of_char c :: nat) \<noteq> 34" "(of_char c :: nat) \<noteq> 116"
    "(of_char c :: nat) \<noteq> 102" "(of_char c :: nat) \<noteq> 110"
    by auto
  show "\<not> is_ws c" using r(1-4) by (auto simp: is_ws_def)
  show "c \<noteq> CHR ''{''" using r(5) by auto
  show "c \<noteq> CHR ''[''" using r(6) by auto
  show "c \<noteq> CHR '']''" using r(7) by auto
  show "c \<noteq> CHR 0x22" using r(8) by auto
  show "CHR ''t'' \<noteq> c" using r(9) by auto
  show "CHR ''f'' \<noteq> c" using r(10) by auto
  show "CHR ''n'' \<noteq> c" using r(11) by auto
qed

lemma parse_value_number:
  assumes "is_digit c \<or> c = CHR ''-''"
  shows "parse_value (Suc n) (c # cs) = number_literal (c # cs)"
  using number_start_facts [OF assms] by (simp add: skip_ws_def)

lemma JSON_value_start:
  "\<exists>c cs. JSON_value v = c # cs \<and> \<not> is_ws c \<and> c \<noteq> CHR '']''"
proof (cases v)
  case (Num i)
  obtain c cs where c: "string_of_int i = c # cs" "is_digit c \<or> c = CHR ''-''"
    using string_of_int_start by blast
  show ?thesis using Num c(1) number_start_facts(1,4) [OF c(2)] by simp
qed (simp_all add: is_ws_def quote_def)

lemma skip_ws_start: "\<not> is_ws c \<Longrightarrow> skip_ws (c # cs) = c # cs"
  by (simp add: skip_ws_def)

lemma follow_sep: "follow (CHR '','' # cs)" "follow (CHR '']'' # cs)" "follow (CHR ''}'' # cs)"
  by (simp_all add: follow_def is_digit_def)

lemma strip_members_all_undefined:
  "JSON_members ps = [] \<Longrightarrow> strip_members ps acc = acc"
  by (induction ps arbitrary: acc) (auto split: if_splits)

lemma JSON_elements_Nil: "JSON_elements vs = [] \<longleftrightarrow> vs = []"
  by (cases vs) simp_all

lemma JSON_value_length: "0 < length (JSON_value v)"
  using JSON_value_start [of v] by auto

lemma JSON_members_start:
  "JSON_members ps = mem # mems \<Longrightarrow> \<exists>cs. mem = CHR 0x22 # cs"
  by (induction ps) (auto split: if_splits simp: quote_def)

lemma parse_value_atom:
  "parse_value (Suc m) (''null'' @ rest) = Some (Null, rest)"
  "parse_value (Suc m) (''true'' @ rest) = Some (Bool True, rest)"
  "parse_value (Suc m) (''false'' @ rest) = Some (Bool False, rest)"
  by (simp_all add: skip_ws_def is_ws_def)

lemma parse_value_Str:
  "string_chars cs = Some (s, r) \<Longrightarrow> parse_value (Suc m) (CHR 0x22 # cs) = Some (Str s, r)"
  by (simp add: skip_ws_def is_ws_def)

lemma parse_value_Arr_empty:
  "parse_value (Suc m) (CHR ''['' # CHR '']'' # r) = Some (Arr [], r)"
  by (simp add: skip_ws_def is_ws_def)

lemma parse_value_Obj_empty:
  "parse_value (Suc m) (CHR ''{'' # CHR ''}'' # r) = Some (Obj [], r)"
  by (simp add: skip_ws_def is_ws_def)

lemma parse_value_Arr_step:
  "parse_elements m (c # cs) = Some (vs, r) \<Longrightarrow> \<not> is_ws c \<Longrightarrow> c \<noteq> CHR '']'' \<Longrightarrow>
   parse_value (Suc m) (CHR ''['' # c # cs) = Some (Arr vs, r)"
  by (simp add: skip_ws_def is_ws_def)

lemma parse_value_Obj_step:
  "parse_members m [] (CHR 0x22 # cs) = Some (ps, r) \<Longrightarrow>
   parse_value (Suc m) (CHR ''{'' # CHR 0x22 # cs) = Some (Obj ps, r)"
  by (simp add: skip_ws_def is_ws_def)

lemma parse_elements_last:
  "parse_value m cs = Some (v, CHR '']'' # r) \<Longrightarrow> parse_elements (Suc m) cs = Some ([v], r)"
  by (simp add: skip_ws_def is_ws_def)

lemma parse_elements_more:
  "parse_value m cs = Some (v, CHR '','' # r) \<Longrightarrow> parse_elements m r = Some (vs, r') \<Longrightarrow>
   parse_elements (Suc m) cs = Some (v # vs, r')"
  by (simp add: skip_ws_def is_ws_def)

lemma parse_members_last:
  "string_chars cs = Some (k, CHR '':'' # cs3) \<Longrightarrow> parse_value m cs3 = Some (v, CHR ''}'' # r) \<Longrightarrow>
   parse_members (Suc m) acc (CHR 0x22 # cs) = Some (obj_set k v acc, r)"
  by (simp add: skip_ws_def is_ws_def)

lemma parse_members_more:
  "string_chars cs = Some (k, CHR '':'' # cs3) \<Longrightarrow> parse_value m cs3 = Some (v, CHR '','' # r) \<Longrightarrow>
   parse_members m (obj_set k v acc) r = Some (ps, r') \<Longrightarrow>
   parse_members (Suc m) acc (CHR 0x22 # cs) = Some (ps, r')"
  by (simp add: skip_ws_def is_ws_def)

lemma parse_roundtrip:
  "(\<forall>n rest. length (JSON_value v) \<le> n \<longrightarrow> follow rest \<longrightarrow>
      parse_value n (JSON_value v @ rest) = Some (strip v, rest))"
  "(\<forall>n rest. vs \<noteq> [] \<longrightarrow> length (join_comma (JSON_elements vs)) < n \<longrightarrow>
      parse_elements n (join_comma (JSON_elements vs) @ CHR '']'' # rest) =
      Some (strip_elements vs, rest))"
  "(\<forall>n rest. JSON_members ps \<noteq> [] \<longrightarrow> length (join_comma (JSON_members ps)) < n \<longrightarrow>
      parse_members n acc (join_comma (JSON_members ps) @ CHR ''}'' # rest) =
      Some (strip_members ps acc, rest))"
proof (induction v and vs and ps acc rule: strip_strip_elements_strip_members.induct)
  case 1
  show ?case
  proof (intro allI impI)
    fix n :: nat and rest
    assume "length (JSON_value Undefined) \<le> n"
    then obtain m where "n = Suc m" by (cases n) auto
    then show "parse_value n (JSON_value Undefined @ rest) = Some (strip Undefined, rest)"
      using parse_value_atom(1) [of m rest] by simp
  qed
next
  case 2
  show ?case
  proof (intro allI impI)
    fix n :: nat and rest
    assume "length (JSON_value Null) \<le> n"
    then obtain m where "n = Suc m" by (cases n) auto
    then show "parse_value n (JSON_value Null @ rest) = Some (strip Null, rest)"
      using parse_value_atom(1) [of m rest] by simp
  qed
next
  case (3 b)
  show ?case
  proof (intro allI impI)
    fix n :: nat and rest
    assume "length (JSON_value (Bool b)) \<le> n"
    then obtain m where "n = Suc m" by (cases n) (auto split: if_splits)
    then show "parse_value n (JSON_value (Bool b) @ rest) = Some (strip (Bool b), rest)"
      using parse_value_atom(2,3) [of m rest] by simp
  qed
next
  case (4 i)
  show ?case
  proof (intro allI impI)
    fix n :: nat and rest
    assume len: "length (JSON_value (Num i)) \<le> n" and f: "follow rest"
    obtain c cs where c: "string_of_int i = c # cs" "is_digit c \<or> c = CHR ''-''"
      using string_of_int_start by blast
    from len c obtain m where n: "n = Suc m" by (cases n) auto
    have "parse_value n (JSON_value (Num i) @ rest) = number_literal (string_of_int i @ rest)"
      using parse_value_number [OF c(2), of m "cs @ rest"] c(1) n by simp
    then show "parse_value n (JSON_value (Num i) @ rest) = Some (strip (Num i), rest)"
      using number_literal_int [OF f, of i] by simp
  qed
next
  case (5 s)
  show ?case
  proof (intro allI impI)
    fix n :: nat and rest
    assume "length (JSON_value (Str s)) \<le> n"
    then obtain m where n: "n = Suc m" by (cases n) (auto simp: quote_def)
    have "parse_value (Suc m) (CHR 0x22 # concat (map escape_char s) @ CHR 0x22 # rest)
          = Some (Str s, rest)"
      by (rule parse_value_Str) (rule string_chars_body)
    then show "parse_value n (JSON_value (Str s) @ rest) = Some (strip (Str s), rest)"
      using n by (simp add: quote_append)
  qed
next
  case (6 vs)
  show ?case
  proof (intro allI impI)
    fix n :: nat and rest
    assume len: "length (JSON_value (Arr vs)) \<le> n"
    then obtain m where n: "n = Suc m" by (cases n) auto
    show "parse_value n (JSON_value (Arr vs) @ rest) = Some (strip (Arr vs), rest)"
    proof (cases vs)
      case Nil
      then show ?thesis using n parse_value_Arr_empty [of m rest] by simp
    next
      case (Cons v vs')
      obtain c cs where c: "JSON_value v = c # cs" "\<not> is_ws c" "c \<noteq> CHR '']''"
        using JSON_value_start by blast
      let ?body = "join_comma (JSON_elements vs) @ CHR '']'' # rest"
      obtain body' where body: "?body = c # body'"
        using Cons c(1) by (simp add: join_comma_Cons)
      have lenb: "length (join_comma (JSON_elements vs)) < m"
        using len n by simp
      have "parse_elements m ?body = Some (strip_elements vs, rest)"
        using 6 Cons lenb by blast
      then have "parse_elements m (c # body') = Some (strip_elements vs, rest)"
        by (simp only: body)
      then have "parse_value (Suc m) (CHR ''['' # c # body') = Some (Arr (strip_elements vs), rest)"
        using c(2,3) by (rule parse_value_Arr_step)
      moreover have "JSON_value (Arr vs) @ rest = CHR ''['' # c # body'"
        using body by simp
      ultimately show ?thesis using n by simp
    qed
  qed
next
  case (7 ps)
  show ?case
  proof (intro allI impI)
    fix n :: nat and rest
    assume len: "length (JSON_value (Obj ps)) \<le> n"
    then obtain m where n: "n = Suc m" by (cases n) auto
    show "parse_value n (JSON_value (Obj ps) @ rest) = Some (strip (Obj ps), rest)"
    proof (cases "JSON_members ps")
      case Nil
      then show ?thesis using n parse_value_Obj_empty [of m rest]
        by (simp add: strip_members_all_undefined)
    next
      case (Cons mem mems)
      let ?body = "join_comma (JSON_members ps) @ CHR ''}'' # rest"
      obtain cs where mem: "mem = CHR 0x22 # cs"
        using JSON_members_start [OF Cons] by blast
      obtain body' where body: "?body = CHR 0x22 # body'"
        using Cons mem by (simp add: join_comma_Cons)
      have lenb: "length (join_comma (JSON_members ps)) < m"
        using len n by simp
      have ne: "JSON_members ps \<noteq> []" using Cons by simp
      have "parse_members m [] ?body = Some (strip_members ps [], rest)"
        using 7 ne lenb by blast
      then have "parse_members m [] (CHR 0x22 # body') = Some (strip_members ps [], rest)"
        by (simp only: body)
      then have "parse_value (Suc m) (CHR ''{'' # CHR 0x22 # body') =
                 Some (Obj (strip_members ps []), rest)"
        by (rule parse_value_Obj_step)
      moreover have "JSON_value (Obj ps) @ rest = CHR ''{'' # CHR 0x22 # body'"
        using body by simp
      ultimately show ?thesis using n by simp
    qed
  qed
next
  case 8
  show ?case by simp
next
  case (9 v vs)
  show ?case
  proof (intro allI impI)
    fix n :: nat and rest
    assume len: "length (join_comma (JSON_elements (v # vs))) < n"
    then obtain m where n: "n = Suc m" by (cases n) auto
    show "parse_elements n (join_comma (JSON_elements (v # vs)) @ CHR '']'' # rest) =
          Some (strip_elements (v # vs), rest)"
    proof (cases "vs = []")
      case True
      have shape: "join_comma (JSON_elements (v # vs)) @ CHR '']'' # rest =
                  JSON_value v @ CHR '']'' # rest"
        using True by simp
      have lenv: "length (JSON_value v) \<le> m" using len n True by simp
      have "parse_value m (JSON_value v @ CHR '']'' # rest) = Some (strip v, CHR '']'' # rest)"
        using 9(1) lenv follow_sep(2) by blast
      then have "parse_elements (Suc m) (JSON_value v @ CHR '']'' # rest) = Some ([strip v], rest)"
        by (rule parse_elements_last)
      then show ?thesis using True n by (simp only: shape; simp)
    next
      case False
      let ?tail = "join_comma (JSON_elements vs) @ CHR '']'' # rest"
      have shape: "join_comma (JSON_elements (v # vs)) @ CHR '']'' # rest =
                  JSON_value v @ CHR '','' # ?tail"
        using False by (simp add: join_comma_Cons JSON_elements_Nil)
      have lenj: "length (join_comma (JSON_elements (v # vs))) =
                  length (JSON_value v) + 1 + length (join_comma (JSON_elements vs))"
        using False by (simp add: join_comma_Cons JSON_elements_Nil)
      have lenv: "length (JSON_value v) \<le> m" using len n lenj by simp
      have lent: "length (join_comma (JSON_elements vs)) < m"
        using len n lenj JSON_value_length [of v] by simp
      have pv: "parse_value m (JSON_value v @ CHR '','' # ?tail) = Some (strip v, CHR '','' # ?tail)"
        using 9(1) lenv follow_sep(1) by blast
      have pe: "parse_elements m ?tail = Some (strip_elements vs, rest)"
        using 9(2) False lent by blast
      have "parse_elements (Suc m) (JSON_value v @ CHR '','' # ?tail) =
            Some (strip v # strip_elements vs, rest)"
        using pv pe by (rule parse_elements_more)
      then show ?thesis using n by (simp only: shape; simp)
    qed
  qed
next
  case (10 acc)
  show ?case by simp
next
  case (11 k v ps acc)
  show ?case
  proof (cases "v = Undefined")
    case True
    then show ?thesis using 11(1) by simp
  next
    case False
    show ?thesis
    proof (intro allI impI)
      fix n :: nat and rest
      assume len: "length (join_comma (JSON_members ((k, v) # ps))) < n"
      then obtain m where n: "n = Suc m" by (cases n) auto
      let ?key = "concat (map escape_char k)"
      show "parse_members n acc (join_comma (JSON_members ((k, v) # ps)) @ CHR ''}'' # rest) =
            Some (strip_members ((k, v) # ps) acc, rest)"
      proof (cases "JSON_members ps = []")
        case True
        have shape: "join_comma (JSON_members ((k, v) # ps)) @ CHR ''}'' # rest =
                  CHR 0x22 # (?key @ CHR 0x22 # CHR '':'' # JSON_value v @ CHR ''}'' # rest)"
          using False True by (simp add: quote_def)
        have lenj: "length (join_comma (JSON_members ((k, v) # ps))) =
                    length (quote k) + 1 + length (JSON_value v)"
          using False True by simp
        have lenv: "length (JSON_value v) \<le> m" using len n lenj by simp
        have sc: "string_chars (?key @ CHR 0x22 # CHR '':'' # JSON_value v @ CHR ''}'' # rest) =
                  Some (k, CHR '':'' # JSON_value v @ CHR ''}'' # rest)"
          by (rule string_chars_body)
        have pv: "parse_value m (JSON_value v @ CHR ''}'' # rest) = Some (strip v, CHR ''}'' # rest)"
          using 11(2) False lenv follow_sep(3) by blast
        have "parse_members (Suc m) acc
                (CHR 0x22 # (?key @ CHR 0x22 # CHR '':'' # JSON_value v @ CHR ''}'' # rest)) =
              Some (obj_set k (strip v) acc, rest)"
          using sc pv by (rule parse_members_last)
        moreover have "strip_members ((k, v) # ps) acc = obj_set k (strip v) acc"
          using False True by (simp add: strip_members_all_undefined)
        ultimately show ?thesis using n by (simp only: shape; simp)
      next
        case nonempty: False
        let ?tail = "join_comma (JSON_members ps) @ CHR ''}'' # rest"
        have shape: "join_comma (JSON_members ((k, v) # ps)) @ CHR ''}'' # rest =
                  CHR 0x22 # (?key @ CHR 0x22 # CHR '':'' # JSON_value v @ CHR '','' # ?tail)"
          using False nonempty by (simp add: join_comma_Cons quote_def)
        have lenj: "length (join_comma (JSON_members ((k, v) # ps))) =
                    length (quote k) + 1 + length (JSON_value v) + 1
                    + length (join_comma (JSON_members ps))"
          using False nonempty by (simp add: join_comma_Cons)
        have lenv: "length (JSON_value v) \<le> m" using len n lenj by simp
        have lent: "length (join_comma (JSON_members ps)) < m"
          using len n lenj by simp
        have sc: "string_chars (?key @ CHR 0x22 # CHR '':'' # JSON_value v @ CHR '','' # ?tail) =
                  Some (k, CHR '':'' # JSON_value v @ CHR '','' # ?tail)"
          by (rule string_chars_body)
        have pv: "parse_value m (JSON_value v @ CHR '','' # ?tail) = Some (strip v, CHR '','' # ?tail)"
          using 11(2) False lenv follow_sep(1) by blast
        have pm: "parse_members m (obj_set k (strip v) acc) ?tail =
                   Some (strip_members ps (obj_set k (strip v) acc), rest)"
          using 11(3) False nonempty lent by blast
        have "parse_members (Suc m) acc
                (CHR 0x22 # (?key @ CHR 0x22 # CHR '':'' # JSON_value v @ CHR '','' # ?tail)) =
              Some (strip_members ps (obj_set k (strip v) acc), rest)"
          using sc pv pm by (rule parse_members_more)
        moreover have "strip_members ((k, v) # ps) acc = strip_members ps (obj_set k (strip v) acc)"
          using False by simp
        ultimately show ?thesis using n by (simp only: shape; simp)
      qed
    qed
  qed
qed

lemma JSON_parse_stringify: "JSON_parse (JSON_stringify v) = Inr (strip v)"
proof -
  have "follow []" by (simp add: follow_def)
  moreover have "length (JSON_value v) \<le> Suc (length (JSON_value v))" by simp
  ultimately have "parse_value (Suc (length (JSON_value v))) (JSON_value v @ []) = Some (strip v, [])"
    using parse_roundtrip(1) [of v] by blast
  then have "parse_value (Suc (length (JSON_value v))) (JSON_value v) = Some (strip v, [])"
    by (simp only: append_Nil2)
  then show ?thesis
    unfolding JSON_parse_def JSON_stringify_def by (simp add: skip_ws_def)
qed

section \<open>The round trip through the durable slot\<close>

lemma strip_json_data:
  "json_data v \<Longrightarrow> strip v = v"
  "json_elements vs \<Longrightarrow> strip_elements vs = vs"
  "json_members ps \<Longrightarrow> distinct (map fst (acc @ ps)) \<Longrightarrow> strip_members ps acc = acc @ ps"
proof (induction v and vs and ps acc rule: strip_strip_elements_strip_members.induct)
  case (7 ps)
  then show ?case by simp
next
  case (11 k v ps acc)
  from 11(4) have jv: "json_data v" and jps: "json_members ps" by simp_all
  then have nu: "v \<noteq> Undefined" by auto
  have fresh: "k \<notin> fst ` set acc" using 11(5) by auto
  have sv: "strip v = v" using 11(2) nu jv by simp
  have "distinct (map fst ((acc @ [(k, v)]) @ ps))" using 11(5) by simp
  then have "strip_members ps (acc @ [(k, v)]) = (acc @ [(k, v)]) @ ps"
    using 11(3) nu jps sv fresh by (simp add: obj_set_fresh)
  then show ?case using nu sv fresh by (simp add: obj_set_fresh)
qed simp_all

lemma strip_members_fields:
  "distinct (map fst (acc @ ps)) \<Longrightarrow> list_all (\<lambda>(k, v). v = Undefined \<or> json_data v) ps \<Longrightarrow>
   strip_members ps acc = acc @ filter (\<lambda>(k, v). v \<noteq> Undefined) ps"
proof (induction ps arbitrary: acc)
  case Nil
  then show ?case by simp
next
  case (Cons p ps)
  obtain k v where p: "p = (k, v)" by (cases p)
  show ?case
  proof (cases "v = Undefined")
    case True
    have "distinct (map fst (acc @ ps))" using Cons.prems(1) p by simp
    then show ?thesis using Cons.IH [of acc] Cons.prems(2) p True by simp
  next
    case False
    then have jv: "json_data v" using Cons.prems(2) p by simp
    have fresh: "k \<notin> fst ` set acc" using Cons.prems(1) p by auto
    have "distinct (map fst ((acc @ [(k, v)]) @ ps))" using Cons.prems(1) p by simp
    then have "strip_members ps (acc @ [(k, v)]) =
               (acc @ [(k, v)]) @ filter (\<lambda>(k, v). v \<noteq> Undefined) ps"
      using Cons.IH [of "acc @ [(k, v)]"] Cons.prems(2) p by simp
    then show ?thesis
      using p False fresh strip_json_data(1) [OF jv] by (simp add: obj_set_fresh)
  qed
qed

lemma strip_session:
  assumes "distinct (map fst ps)" "list_all (\<lambda>(k, v). v = Undefined \<or> json_data v) ps"
  shows "strip (Obj ps) = Obj (filter (\<lambda>(k, v). v \<noteq> Undefined) ps)"
  using strip_members_fields [of "[]" ps] assms by simp

lemma map_of_filter_defined:
  "(case map_of (filter (\<lambda>(k, v). v \<noteq> Undefined) ps) k of Some x \<Rightarrow> x | None \<Rightarrow> Undefined) =
   (case map_of ps k of Some x \<Rightarrow> x | None \<Rightarrow> Undefined)"
  if "distinct (map fst ps)"
  using that
proof (induction ps)
  case Nil
  then show ?case by simp
next
  case (Cons p ps)
  obtain k' v where p: "p = (k', v)" by (cases p)
  have notin: "map_of ps k' = None" using Cons.prems p by (simp add: map_of_eq_None_iff)
  have notin': "map_of (filter (\<lambda>(k, v). v \<noteq> Undefined) ps) k' = None"
    using Cons.prems p by (auto simp: map_of_eq_None_iff)
  show ?case
  proof (cases "k = k'")
    case True
    then show ?thesis using p notin notin' by simp
  next
    case False
    then show ?thesis using Cons p by simp
  qed
qed

lemma get_prop_filter_defined:
  "distinct (map fst ps) \<Longrightarrow>
   get_prop (Obj (filter (\<lambda>(k, v). v \<noteq> Undefined) ps)) k = get_prop (Obj ps) k"
  by (simp add: get_prop_def map_of_filter_defined)

lemma indexed_values: "(k, x) \<in> set (indexed i xs) \<Longrightarrow> x \<in> set xs"
  by (induction xs arbitrary: i) auto

lemma json_elements_iff: "json_elements vs \<longleftrightarrow> (\<forall>v\<in>set vs. json_data v)"
  by (induction vs) auto

lemma json_members_iff: "json_members ps \<longleftrightarrow> (\<forall>(k, v)\<in>set ps. json_data v)"
  by (induction ps) auto

lemma own_props_json:
  "json_data v \<Longrightarrow> (k, x) \<in> set (own_props v) \<Longrightarrow> json_data x"
proof (cases v)
  case (Str s)
  assume "(k, x) \<in> set (own_props v)"
  then have "x \<in> set (map (\<lambda>c. Str [c]) s)" using Str by (auto dest: indexed_values)
  then show ?thesis by auto
next
  case (Arr vs)
  assume "json_data v" "(k, x) \<in> set (own_props v)"
  then show ?thesis using Arr by (auto dest: indexed_values simp: json_elements_iff)
next
  case (Obj ps)
  assume "json_data v" "(k, x) \<in> set (own_props v)"
  then show ?thesis using Obj by (auto simp: json_members_iff)
qed auto

lemma get_prop_json:
  "json_data v \<Longrightarrow> get_prop v k = Undefined \<or> json_data (get_prop v k)"
  by (auto simp: get_prop_def split: option.splits dest: map_of_SomeD own_props_json)

lemma records_json:
  "json_data c \<Longrightarrow> (k, x) \<in> set (records c) \<Longrightarrow> json_data x"
  by (auto simp: records_def dest: own_props_json split: if_splits)

lemma login_success_cases:
  assumes "login dbGet setItem u p st = (r, st')" "success r"
  shows "\<exists>ud. accepts setItem ud
      \<and> st' = st\<lparr>user := ud, crescentUser := Some (JSON_stringify ud)\<rparr>
      \<and> ((\<exists>a. dbGet ''users/admin'' = Inr a \<and> ud = admin_userData a)
        \<or> (\<exists>c k t. dbGet ''teachers'' = Inr c \<and> (k, t) \<in> set (records c)
              \<and> ud = teacher_userData k t)
        \<or> (\<exists>c k s. dbGet ''students'' = Inr c \<and> (k, s) \<in> set (records c)
              \<and> ud = student_userData k s))"
proof -
  consider (raised) e where "login_try dbGet setItem u p st = Inl (e, st)"
    | (none) "login_try dbGet setItem u p st =
        Inr (\<lparr>success = False, error = Some ''Invalid username or password''\<rparr>, st)"
    | (match) ud where "login_try dbGet setItem u p st = sign_in setItem ud st"
        "(\<exists>a. dbGet ''users/admin'' = Inr a \<and> ud = admin_userData a)
          \<or> (\<exists>c k t. dbGet ''teachers'' = Inr c \<and> (k, t) \<in> set (records c)
                \<and> ud = teacher_userData k t)
          \<or> (\<exists>c k s. dbGet ''students'' = Inr c \<and> (k, s) \<in> set (records c)
                \<and> ud = student_userData k s)"
    using login_try_sources [of dbGet setItem u p st] by blast
  then show ?thesis
  proof cases
    case raised
    then show ?thesis using assms by (auto simp: login_def)
  next
    case none
    then show ?thesis using assms by (auto simp: login_def)
  next
    case match
    show ?thesis
    proof (cases "setItem (JSON_stringify ud)")
      case None
      then have a: "accepts setItem ud" by (simp add: accepts_def)
      from sign_in_accepted [OF match(1) a] assms(1)
      have "st' = st\<lparr>user := ud, crescentUser := Some (JSON_stringify ud)\<rparr>" by simp
      with a match(2) show ?thesis by blast
    next
      case (Some e)
      from sign_in_refused [OF match(1) Some] assms show ?thesis by simp
    qed
  qed
qed

lemma field_json: "json_data r \<Longrightarrow> get_prop r k = Undefined \<or> json_data (get_prop r k)"
  by (rule get_prop_json)

lemma admin_userData_fields:
  assumes "json_data a"
  shows "\<exists>ps. admin_userData a = Obj ps \<and> distinct (map fst ps)
           \<and> list_all (\<lambda>(k, v). v = Undefined \<or> json_data v) ps"
  using field_json [OF assms, of "''id''"] field_json [OF assms, of "''username''"]
    field_json [OF assms, of "''name''"]
  by (simp add: admin_userData_def)

lemma teacher_userData_fields:
  assumes "json_data t"
  shows "\<exists>ps. teacher_userData key t = Obj ps \<and> distinct (map fst ps)
           \<and> list_all (\<lambda>(k, v). v = Undefined \<or> json_data v) ps"
  using field_json [OF assms, of "''username''"] field_json [OF assms, of "''name''"]
  by (simp add: teacher_userData_def)

lemma student_userData_fields:
  assumes "json_data s"
  shows "\<exists>ps. student_userData key s = Obj ps \<and> distinct (map fst ps)
           \<and> list_all (\<lambda>(k, v). v = Undefined \<or> json_data v) ps"
  using field_json [OF assms, of "''username''"] field_json [OF assms, of "''name''"]
    field_json [OF assms, of "''classId''"] field_json [OF assms, of "''className''"]
    field_json [OF assms, of "''passwordChanged''"]
  by (simp add: student_userData_def)

lemma JSON_stringify_nonempty: "JSON_stringify v \<noteq> []"
  using JSON_value_length [of v] by (simp add: JSON_stringify_def)

lemma restore_after_stringify:
  "restoreSession (fresh_process (Some (JSON_stringify ud))) =
   Inr \<lparr>user = strip ud, isLoading = False, crescentUser = Some (JSON_stringify ud)\<rparr>"
  by (simp add: restoreSession_def fresh_process_def JSON_stringify_nonempty JSON_parse_stringify)

text \<open>
  C8 as stated fails.  The admin record has no \<^verbatim>\<open>id\<close>: \<^verbatim>\<open>login\<close> succeeds and installs
  a session whose \<^verbatim>\<open>id\<close> property is \<^verbatim>\<open>undefined\<close>; \<^verbatim>\<open>JSON.stringify\<close> does not
  write that property, so the session \<^verbatim>\<open>restoreSession\<close> installs in a fresh process
  has no \<^verbatim>\<open>id\<close> property and is not the session \<^verbatim>\<open>login\<close> installed.
\<close>

theorem login_restore_roundtrip_counterexample:
  "fst (login
      (\<lambda>path. if path = ''users/admin''
         then Inr (Obj [(''username'', Str ''root''), (''password'', Str ''pw''),
                        (''name'', Str ''Head'')])
         else Inr Null)
      (\<lambda>t. None) ''root'' ''pw'' (fresh_process None)) = \<lparr>success = True, error = None\<rparr>
   \<and> user (snd (login
      (\<lambda>path. if path = ''users/admin''
         then Inr (Obj [(''username'', Str ''root''), (''password'', Str ''pw''),
                        (''name'', Str ''Head'')])
         else Inr Null)
      (\<lambda>t. None) ''root'' ''pw'' (fresh_process None))) =
     Obj [(''id'', Undefined), (''username'', Str ''root''), (''name'', Str ''Head''),
          (''role'', Str ''admin'')]
   \<and> crescentUser (snd (login
      (\<lambda>path. if path = ''users/admin''
         then Inr (Obj [(''username'', Str ''root''), (''password'', Str ''pw''),
                        (''name'', Str ''Head'')])
         else Inr Null)
      (\<lambda>t. None) ''root'' ''pw'' (fresh_process None))) =
     Some ''{\"username\":\"root\",\"name\":\"Head\",\"role\":\"admin\"}''
   \<and> map_sum id user (restoreSession (fresh_process (crescentUser (snd (login
      (\<lambda>path. if path = ''users/admin''
         then Inr (Obj [(''username'', Str ''root''), (''password'', Str ''pw''),
                        (''name'', Str ''Head'')])
         else Inr Null)
      (\<lambda>t. None) ''root'' ''pw'' (fresh_process None)))))) =
     Inr (Obj [(''username'', Str ''root''), (''name'', Str ''Head''), (''role'', Str ''admin'')])
   \<and> map_sum id user (restoreSession (fresh_process (crescentUser (snd (login
      (\<lambda>path. if path = ''users/admin''
         then Inr (Obj [(''username'', Str ''root''), (''password'', Str ''pw''),
                        (''name'', Str ''Head'')])
         else Inr Null)
      (\<lambda>t. None) ''root'' ''pw'' (fresh_process None)))))) \<noteq>
     Inr (user (snd (login
      (\<lambda>path. if path = ''users/admin''
         then Inr (Obj [(''username'', Str ''root''), (''password'', Str ''pw''),
                        (''name'', Str ''Head'')])
         else Inr Null)
      (\<lambda>t. None) ''root'' ''pw'' (fresh_process None))))"
  by code_simp

text \<open>
  C8, amended.  After a successful \<^verbatim>\<open>login\<close> the durable slot holds a text from which
  \<^verbatim>\<open>restoreSession\<close>, run in a fresh process, installs the session \<^verbatim>\<open>login\<close> installed
  as \<^verbatim>\<open>JSON.stringify\<close> and \<^verbatim>\<open>JSON.parse\<close> carry it.  When the store delivers JSON
  data, that is the installed object without the properties whose value is \<^verbatim>\<open>undefined\<close>
  (a field the matched record does not have): every property read gives the same value on
  both, and the two are the same object exactly when no property of the installed one is
  \<^verbatim>\<open>undefined\<close>.
\<close>

theorem login_restore_roundtrip:
  "login dbGet setItem username password st = (r, st') \<and> success r \<longrightarrow>
     (\<exists>saved. crescentUser st' = Some saved
        \<and> restoreSession (fresh_process (Some saved)) =
            Inr \<lparr>user = strip (user st'), isLoading = False, crescentUser = Some saved\<rparr>)
   \<and> ((\<forall>path v. dbGet path = Inr v \<longrightarrow> json_data v) \<longrightarrow>
        (\<forall>k. get_prop (strip (user st')) k = get_prop (user st') k)
        \<and> (\<exists>ps. user st' = Obj ps
              \<and> strip (user st') = Obj (filter (\<lambda>(k, v). v \<noteq> Undefined) ps)
              \<and> (strip (user st') = user st' \<longleftrightarrow> (\<forall>(k, v)\<in>set ps. v \<noteq> Undefined))))"
proof (intro impI, elim conjE)
  assume l: "login dbGet setItem username password st = (r, st')" and s: "success r"
  from login_success_cases [OF l s] obtain ud where
    st': "st' = st\<lparr>user := ud, crescentUser := Some (JSON_stringify ud)\<rparr>"
    and src: "(\<exists>a. dbGet ''users/admin'' = Inr a \<and> ud = admin_userData a)
        \<or> (\<exists>c k t. dbGet ''teachers'' = Inr c \<and> (k, t) \<in> set (records c)
              \<and> ud = teacher_userData k t)
        \<or> (\<exists>c k s. dbGet ''students'' = Inr c \<and> (k, s) \<in> set (records c)
              \<and> ud = student_userData k s)"
    by blast
  have 1: "\<exists>saved. crescentUser st' = Some saved
        \<and> restoreSession (fresh_process (Some saved)) =
            Inr \<lparr>user = strip (user st'), isLoading = False, crescentUser = Some saved\<rparr>"
    using st' restore_after_stringify [of ud] by simp
  have 2: "(\<forall>k. get_prop (strip (user st')) k = get_prop (user st') k)
        \<and> (\<exists>ps. user st' = Obj ps
              \<and> strip (user st') = Obj (filter (\<lambda>(k, v). v \<noteq> Undefined) ps)
              \<and> (strip (user st') = user st' \<longleftrightarrow> (\<forall>(k, v)\<in>set ps. v \<noteq> Undefined)))"
    if store: "\<forall>path v. dbGet path = Inr v \<longrightarrow> json_data v"
  proof -
    have "\<exists>ps. ud = Obj ps \<and> distinct (map fst ps)
           \<and> list_all (\<lambda>(k, v). v = Undefined \<or> json_data v) ps"
      using src
    proof (elim disjE exE conjE)
      fix a assume "dbGet ''users/admin'' = Inr a" "ud = admin_userData a"
      then show ?thesis using store admin_userData_fields by blast
    next
      fix c k t assume "dbGet ''teachers'' = Inr c" "(k, t) \<in> set (records c)"
        "ud = teacher_userData k t"
      then show ?thesis using store records_json teacher_userData_fields by blast
    next
      fix c k s assume "dbGet ''students'' = Inr c" "(k, s) \<in> set (records c)"
        "ud = student_userData k s"
      then show ?thesis using store records_json student_userData_fields by blast
    qed
    then obtain ps where ps: "ud = Obj ps" "distinct (map fst ps)"
      "list_all (\<lambda>(k, v). v = Undefined \<or> json_data v) ps" by blast
    have sp: "strip ud = Obj (filter (\<lambda>(k, v). v \<noteq> Undefined) ps)"
      unfolding ps(1) using ps(2,3) by (rule strip_session)
    have "\<And>k. get_prop (strip ud) k = get_prop ud k"
      unfolding sp unfolding ps(1) using ps(2) by (rule get_prop_filter_defined)
    moreover have "strip ud = ud \<longleftrightarrow> Obj (filter (\<lambda>(k, v). v \<noteq> Undefined) ps) = Obj ps"
      by (simp only: sp, simp only: ps(1))
    then have "strip ud = ud \<longleftrightarrow> (\<forall>(k, v)\<in>set ps. v \<noteq> Undefined)"
      by (auto simp: filter_id_conv)
    ultimately show ?thesis using sp ps(1) st' by simp
  qed
  show "(\<exists>saved. crescentUser st' = Some saved
        \<and> restoreSession (fresh_process (Some saved)) =
            Inr \<lparr>user = strip (user st'), isLoading = False, crescentUser = Some saved\<rparr>)
   \<and> ((\<forall>path v. dbGet path = Inr v \<longrightarrow> json_data v) \<longrightarrow>
        (\<forall>k. get_prop (strip (user st')) k = get_prop (user st') k)
        \<and> (\<exists>ps. user st' = Obj ps
              \<and> strip (user st') = Obj (filter (\<lambda>(k, v). v \<noteq> Undefined) ps)
              \<and> (strip (user st') = user st' \<longleftrightarrow> (\<forall>(k, v)\<in>set ps. v \<noteq> Undefined))))"
    using 1 2 by blast
qed

theorem login_restore_roundtrip_witness:
  "user (snd (login
      (\<lambda>path. if path = ''students''
         then Inr (Obj [(''s1'', Obj [(''username'', Str ''amy''), (''password'', Str ''pw''),
                                      (''name'', Str ''Amy''), (''classId'', Str ''c1''),
                                      (''className'', Str ''10-A'')])])
         else Inr Null)
      (\<lambda>t. None) ''amy'' ''pw'' (fresh_process None))) =
     Obj [(''id'', Str ''s1''), (''username'', Str ''amy''), (''name'', Str ''Amy''),
          (''role'', Str ''student''), (''classId'', Str ''c1''), (''className'', Str ''10-A''),
          (''passwordChanged'', Bool False)]
   \<and> map_sum id user (restoreSession (fresh_process (crescentUser (snd (login
      (\<lambda>path. if path = ''students''
         then Inr (Obj [(''s1'', Obj [(''username'', Str ''amy''), (''password'', Str ''pw''),
                                      (''name'', Str ''Amy''), (''classId'', Str ''c1''),
                                      (''className'', Str ''10-A'')])])
         else Inr Null)
      (\<lambda>t. None) ''amy'' ''pw'' (fresh_process None)))))) =
     Inr (Obj [(''id'', Str ''s1''), (''username'', Str ''amy''), (''name'', Str ''Amy''),
          (''role'', Str ''student''), (''classId'', Str ''c1''), (''className'', Str ''10-A''),
          (''passwordChanged'', Bool False)])"
proof -
  let ?D = "\<lambda>path. if path = ''students''
         then Inr (Obj [(''s1'', Obj [(''username'', Str ''amy''), (''password'', Str ''pw''),
                                      (''name'', Str ''Amy''), (''classId'', Str ''c1''),
                                      (''className'', Str ''10-A'')])])
         else Inr Null"
  let ?L = "login ?D (\<lambda>t. None) ''amy'' ''pw'' (fresh_process None)"
  let ?U = "Obj [(''id'', Str ''s1''), (''username'', Str ''amy''), (''name'', Str ''Amy''),
          (''role'', Str ''student''), (''classId'', Str ''c1''), (''className'', Str ''10-A''),
          (''passwordChanged'', Bool False)]"
  have l: "?L = (fst ?L, snd ?L)" by simp
  have s: "success (fst ?L)" by code_simp
  have u: "user (snd ?L) = ?U" by code_simp
  from login_restore_roundtrip [of ?D "\<lambda>t. None" "''amy''" "''pw''" "fresh_process None"
      "fst ?L" "snd ?L"] l s
  obtain saved where saved: "crescentUser (snd ?L) = Some saved"
    "restoreSession (fresh_process (Some saved)) =
       Inr \<lparr>user = strip (user (snd ?L)), isLoading = False, crescentUser = Some saved\<rparr>"
    by blast
  have "strip ?U = ?U" by simp
  then have "map_sum id user (restoreSession (fresh_process (crescentUser (snd ?L)))) = Inr ?U"
    using saved u by simp
  then show ?thesis using u by blast
qed

end
